theory Spec2Isabelle
  imports Complex_Main "HOL-Library.Word"
begin

unbundle bit_operations_syntax

section \<open>EbmlParser (shared/webm_parser.js)\<close>

text \<open>
  Every parse function of the source returns a status object.  The three status codes
  are the constructors; \<open>STATUS_NEED_MORE_DATA\<close> carries \<open>bytesNeeded\<close>, and
  \<open>STATUS_OK\<close> carries the remaining fields of the object.
\<close>

datatype 'a status =
    STATUS_OK 'a
  | STATUS_INVALID_DATA
  | STATUS_NEED_MORE_DATA int

text \<open>
  A \<open>Uint8Array\<close> is a list of bytes.  Reading an index past the end gives
  \<open>undefined\<close> in JavaScript, here \<open>None\<close>; as an operand of a bitwise
  operator \<open>undefined\<close> is converted to the 32-bit integer 0, a byte to its value.
\<close>

type_synonym Uint8Array = "8 word list"

definition getByte :: "Uint8Array \<Rightarrow> nat \<Rightarrow> 8 word option" where
  "getByte buf i = (if i < length buf then Some (buf ! i) else None)"

definition toInt32 :: "8 word option \<Rightarrow> 32 word" where
  "toInt32 b = (case b of None \<Rightarrow> 0 | Some x \<Rightarrow> ucast x)"

text \<open>
  The fields \<open>bytesUsed\<close> and \<open>value\<close> of a successful number parse.  Isabelle
  names cannot end in an underscore, so the private members of the source
  (\<open>parseNum_\<close>, \<open>segmentOffset_\<close>, ...) are written without it; and the
  parameters \<open>size\<close>, \<open>mask\<close>, \<open>time\<close> and \<open>buffer\<close>, whose names are
  constants of the logic or of this theory, are \<open>sz\<close>, \<open>msk\<close>, \<open>t\<close> and
  \<open>bufferNow\<close>.
\<close>

datatype num_result = NumResult (bytesUsed: int) (numValue: int)

text \<open>
  First loop of \<open>parseNum_\<close>: \<open>for (i = 0; i < maxBytes; ++i)\<close>, testing
  \<open>(ch & mask) == mask\<close> and halving the mask.  The last argument counts the
  iterations left (\<open>maxBytes - i\<close>).  The result is \<open>extraBytes\<close> together with
  the mask that matched; \<open>None\<close> stands for \<open>extraBytes == -1\<close>.
\<close>

fun scanMarker :: "32 word \<Rightarrow> 32 word \<Rightarrow> nat \<Rightarrow> nat \<Rightarrow> (nat \<times> 32 word) option" where
  "scanMarker ch msk i 0 = None"
| "scanMarker ch msk i (Suc n) =
     (if ch AND msk = msk then Some (i, msk)
      else scanMarker ch (drop_bit 1 msk) (Suc i) n)"

text \<open>
  Second loop of \<open>parseNum_\<close>: \<open>num = (num << 8) | (0xff & buf[start + bytesUsed])\<close>,
  once for every extra byte.  JavaScript's shift and or work on 32-bit integers.
\<close>

fun readExtraBytes :: "Uint8Array \<Rightarrow> nat \<Rightarrow> nat \<Rightarrow> 32 word \<Rightarrow> 32 word" where
  "readExtraBytes buf pos 0 num = num"
| "readExtraBytes buf pos (Suc n) num =
     readExtraBytes buf (Suc pos) n (push_bit 8 num OR (255 AND toInt32 (getByte buf pos)))"

definition parseNum :: "Uint8Array \<Rightarrow> nat \<Rightarrow> int \<Rightarrow> nat \<Rightarrow> bool \<Rightarrow> num_result status" where
  "parseNum buf start sz maxBytes maskFirstByte =
     (if sz \<le> 0 then STATUS_NEED_MORE_DATA 1
      else
        let ch = toInt32 (getByte buf start) in
        case scanMarker ch 0x80 0 maxBytes of
          None \<Rightarrow> STATUS_INVALID_DATA
        | Some (extraBytes, msk) \<Rightarrow>
            let num = (if maskFirstByte then ch AND NOT msk else ch) in
            if 1 + int extraBytes > sz
            then STATUS_NEED_MORE_DATA (1 + int extraBytes - sz)
            else STATUS_OK (NumResult (1 + int extraBytes)
                   (sint (readExtraBytes buf (start + 1) extraBytes num))))"

text \<open>
  The status object of \<open>parseElementHeader\<close>.  For \<open>size == 0\<close> the source returns
  only \<open>bytesUsed: 0\<close>; the fields \<open>id\<close> and \<open>elementSize\<close> are then absent.
\<close>

datatype element_header =
  ElementHeader (hdrBytesUsed: int) (hdrId: "int option") (elementSize: "int option")

definition parseElementHeader :: "Uint8Array \<Rightarrow> nat \<Rightarrow> int \<Rightarrow> element_header status" where
  "parseElementHeader buf start sz =
     (if sz = 0 then STATUS_OK (ElementHeader 0 None None)
      else
        case parseNum buf start sz 4 False of
          STATUS_INVALID_DATA \<Rightarrow> STATUS_INVALID_DATA
        | STATUS_NEED_MORE_DATA n \<Rightarrow> STATUS_NEED_MORE_DATA n
        | STATUS_OK res1 \<Rightarrow>
            if bytesUsed res1 \<le> 0 then STATUS_INVALID_DATA
            else
              case parseNum buf (start + nat (bytesUsed res1)) (sz - bytesUsed res1) 8 True of
                STATUS_INVALID_DATA \<Rightarrow> STATUS_INVALID_DATA
              | STATUS_NEED_MORE_DATA n \<Rightarrow> STATUS_NEED_MORE_DATA n
              | STATUS_OK res2 \<Rightarrow>
                  if bytesUsed res2 \<le> 0 then STATUS_INVALID_DATA
                  else STATUS_OK (ElementHeader (bytesUsed res1 + bytesUsed res2)
                         (Some (numValue res1)) (Some (numValue res2))))"

text \<open>
  Loop of \<open>parseUInt\<close>: \<open>val <<= 8; val |= buf[start + i] & 0xff\<close>.  Both
  assignments are 32-bit integer operations in JavaScript.
\<close>

fun parseUInt_loop :: "Uint8Array \<Rightarrow> nat \<Rightarrow> nat \<Rightarrow> 32 word \<Rightarrow> 32 word" where
  "parseUInt_loop buf pos 0 val = val"
| "parseUInt_loop buf pos (Suc n) val =
     parseUInt_loop buf (Suc pos) n (push_bit 8 val OR (toInt32 (getByte buf pos) AND 255))"

definition parseUInt :: "Uint8Array \<Rightarrow> nat \<Rightarrow> int \<Rightarrow> num_result status" where
  "parseUInt buf start sz =
     (if sz < 1 \<or> sz > 8 then STATUS_INVALID_DATA
      else STATUS_OK (NumResult sz (sint (parseUInt_loop buf start (nat sz) 0))))"

section \<open>WebMParser (shared/webm_parser.js)\<close>

text \<open>
  A parsed CuePoint: \<open>cueTime\<close> in seconds (a JavaScript number, modelled as a real)
  and the CueTrackPositions object with the cluster's file offset.
\<close>

record track_position =
  cueTrack :: int
  cueClusterPos :: int

record cue_point =
  cueTime :: real
  trackPosition :: track_position

text \<open>
  The fields of \<open>WebMParser\<close> that the modelled functions read or write.
  \<open>seekHead\<close> is an object used as a dictionary from element names to file offsets,
  or \<open>null\<close>; \<open>cues\<close> is an array or \<open>null\<close>.  The constructor sets
  \<open>segmentOffset_ = -1\<close>, \<open>duration_ = -1\<close>, \<open>timecodeScale_ = 1000000\<close>.
\<close>

record WebMParser =
  segmentOffset :: int
  seekHead :: "(string \<rightharpoonup> int) option"
  timecodeScale :: real
  duration :: real
  cues :: "cue_point list option"

definition newWebMParser :: WebMParser where
  "newWebMParser =
     \<lparr>segmentOffset = - 1, seekHead = None, timecodeScale = 1000000, duration = - 1,
      cues = None\<rparr>"

definition setSegmentOffset :: "WebMParser \<Rightarrow> int \<Rightarrow> WebMParser" where
  "setSegmentOffset p off = (if off > 0 then p\<lparr>segmentOffset := off\<rparr> else p)"

definition setDuration :: "WebMParser \<Rightarrow> real \<Rightarrow> WebMParser" where
  "setDuration p d = p\<lparr>duration := d\<rparr>"

definition getCues :: "WebMParser \<Rightarrow> cue_point list option" where
  "getCues p = cues p"

text \<open>
  A call that ends by a JavaScript \<open>TypeError\<close> (a property read on \<open>null\<close> or
  \<open>undefined\<close>) instead of returning.
\<close>

datatype 'a completion = Normal 'a | TypeError

text \<open>
  \<open>parseSegmentHeaders\<close> hands the Segment's children to the generic list walker
  \<open>parseList_\<close> with the table \<open>SEGMENT_IDS_\<close>.  The walker and the element
  parsers below it (SeekHead, Info, Tracks, floats) are not part of this model: the call
  is a parameter, given the parser object, the buffer, the start and the size, and
  returning the status object.  In the source these parsers read \<open>segmentOffset_\<close>
  (\<open>parseSeekHead_\<close>) and never assign it.  Of the parsed value only the properties
  \<open>seekHead\<close> and \<open>info\<close> are used; either may be absent (\<open>undefined\<close>).
\<close>

record segment_info =
  infoTimecodeScale :: real
  infoDuration :: "real option"

record segment_value =
  segSeekHead :: "(string \<rightharpoonup> int) option"
  segInfo :: "segment_info option"

datatype list_result = ListResult (listBytesUsed: int) (listValue: segment_value)

type_synonym segment_list_parser =
  "WebMParser \<Rightarrow> Uint8Array \<Rightarrow> nat \<Rightarrow> int \<Rightarrow> list_result status"

definition parseSegmentHeaders ::
  "segment_list_parser \<Rightarrow> WebMParser \<Rightarrow> Uint8Array \<Rightarrow> nat \<Rightarrow> int \<Rightarrow> int
     \<Rightarrow> int status completion \<times> WebMParser" where
  "parseSegmentHeaders parseList p buf start sz bufOffset =
     (case parseElementHeader buf start sz of
        STATUS_INVALID_DATA \<Rightarrow> (Normal STATUS_INVALID_DATA, p)
      | STATUS_NEED_MORE_DATA n \<Rightarrow> (Normal (STATUS_NEED_MORE_DATA n), p)
      | STATUS_OK hdr \<Rightarrow>
          if hdrId hdr \<noteq> Some 0x18538067 then (Normal STATUS_INVALID_DATA, p)
          else
            let readOffset = int start + hdrBytesUsed hdr;
                p1 = (if segmentOffset p = - 1 then p\<lparr>segmentOffset := readOffset\<rparr> else p)
            in
              case parseList p1 buf (nat readOffset) (sz - hdrBytesUsed hdr) of
                STATUS_INVALID_DATA \<Rightarrow> (Normal STATUS_INVALID_DATA, p1)
              | STATUS_NEED_MORE_DATA n \<Rightarrow> (Normal (STATUS_NEED_MORE_DATA n), p1)
              | STATUS_OK res \<Rightarrow>
                  let readOffset2 = readOffset + listBytesUsed res in
                  case segSeekHead (listValue res) of
                    None \<Rightarrow> (TypeError, p1\<lparr>seekHead := None\<rparr>)
                  | Some sh \<Rightarrow>
                      let p2 = p1\<lparr>seekHead := Some (sh(''CLUSTER'' \<mapsto> readOffset2 + bufOffset))\<rparr>
                      in
                        case segInfo (listValue res) of
                          None \<Rightarrow> (TypeError, p2)
                        | Some info \<Rightarrow>
                            let p3 = p2\<lparr>timecodeScale := infoTimecodeScale info\<rparr>;
                                timeScale = timecodeScale p3 / 1000000000
                            in
                              (Normal (STATUS_OK (readOffset2 - int start)),
                               case infoDuration info of
                                 None \<Rightarrow> p3
                               | Some d \<Rightarrow>
                                   if d > 0 \<and> duration p3 = - 1
                                   then p3\<lparr>duration := d * timeScale\<rparr> else p3))"

text \<open>
  The loop of \<open>squishCues\<close>.  When the offsets of \<open>cues[i]\<close> and \<open>cues[i + 1]\<close>
  agree, \<open>splice(i + 1, 1)\<close> removes the second and \<open>--i\<close> cancels the loop's
  \<open>++i\<close>, so the same \<open>i\<close> is tested again.  The loop condition
  \<open>i < cues.length - 1\<close> is \<open>i + 1 < length cues\<close> on naturals.
\<close>

function squishLoop :: "nat \<Rightarrow> cue_point list \<Rightarrow> cue_point list" where
  "squishLoop i cs =
     (if i + 1 < length cs then
        (if cueClusterPos (trackPosition (cs ! i)) = cueClusterPos (trackPosition (cs ! (i + 1)))
         then squishLoop i (take (i + 1) cs @ drop (i + 2) cs)
         else squishLoop (i + 1) cs)
      else cs)"
  by pat_completeness auto
termination
  by (relation "measure (\<lambda>(i, cs). 2 * length cs - i)") auto

definition squishCues :: "WebMParser \<Rightarrow> bool status \<times> WebMParser" where
  "squishCues p =
     (case cues p of
        None \<Rightarrow> (STATUS_INVALID_DATA, p)
      | Some cs \<Rightarrow> (STATUS_OK True, p\<lparr>cues := Some (squishLoop 0 cs)\<rparr>))"

section \<open>WebMFileParser (shared/webm_parser.js)\<close>

text \<open>
  \<open>WebMFileParser\<close> owns a \<open>WebMParser\<close> in its property \<open>parser\<close>, which
  \<open>canSeek\<close> and \<open>squishCues\<close> test for \<open>null\<close>.  The other functions modelled
  here use \<open>this.parser\<close> without a test; they are given the parser itself.
\<close>

record WebMFileParser =
  parser :: "WebMParser option"

definition WebMFileParser_canSeek :: "WebMFileParser \<Rightarrow> bool" where
  "WebMFileParser_canSeek f =
     (case parser f of None \<Rightarrow> False | Some p \<Rightarrow> getCues p \<noteq> None)"

definition WebMFileParser_squishCues :: "WebMFileParser \<Rightarrow> bool status \<times> WebMFileParser" where
  "WebMFileParser_squishCues f =
     (case parser f of
        None \<Rightarrow> (STATUS_INVALID_DATA, f)
      | Some p \<Rightarrow> (fst (squishCues p), f\<lparr>parser := Some (snd (squishCues p))\<rparr>))"

text \<open>
  The cueDesc object \<open>{time, offset, size, endTime}\<close>; \<open>size\<close> and \<open>endTime\<close>
  are \<open>-1\<close> when unknown.
\<close>

record cueDesc =
  cdTime :: real
  cdOffset :: int
  cdSize :: int
  cdEndTime :: real

text \<open>
  The loop of \<open>getCueDescFromCue_\<close>:
  \<open>while (cueEnd < cues.length && startOffset == cues[cueEnd].trackPosition.cueClusterPos) cueEnd++\<close>.
\<close>

function findCueEnd :: "cue_point list \<Rightarrow> int \<Rightarrow> nat \<Rightarrow> nat" where
  "findCueEnd cs startOffset cueEnd =
     (if cueEnd < length cs \<and> startOffset = cueClusterPos (trackPosition (cs ! cueEnd))
      then findCueEnd cs startOffset (Suc cueEnd)
      else cueEnd)"
  by pat_completeness auto
termination
  by (relation "measure (\<lambda>(cs, startOffset, cueEnd). length cs - cueEnd)") auto

text \<open>
  \<open>index\<close> is a natural number: every caller passes 0, the result of a binary search,
  or a counter that starts from one of these.
\<close>

definition getCueDescFromCue :: "WebMParser \<Rightarrow> nat \<Rightarrow> cueDesc status" where
  "getCueDescFromCue p index =
     (case getCues p of
        None \<Rightarrow> STATUS_INVALID_DATA
      | Some cs \<Rightarrow>
          if length cs = 0 then STATUS_INVALID_DATA
          else if index \<ge> length cs then STATUS_INVALID_DATA
          else
            let startOffset = cueClusterPos (trackPosition (cs ! index));
                cueEnd = findCueEnd cs startOffset (index + 1)
            in
              if cueEnd < length cs then
                STATUS_OK \<lparr>cdTime = cueTime (cs ! index), cdOffset = startOffset,
                  cdSize = cueClusterPos (trackPosition (cs ! cueEnd)) - startOffset,
                  cdEndTime = cueTime (cs ! cueEnd)\<rparr>
              else
                STATUS_OK \<lparr>cdTime = cueTime (cs ! index), cdOffset = startOffset,
                  cdSize =
                    (case seekHead p of
                       None \<Rightarrow> - 1
                     | Some sh \<Rightarrow>
                         (case sh ''CUES'' of
                            None \<Rightarrow> - 1
                          | Some c \<Rightarrow> if c > startOffset then c - startOffset else - 1)),
                  cdEndTime = duration p\<rparr>)"

text \<open>
  The binary search of \<open>getCueIndexFromTime_\<close>.  \<open>Math.round((r - l) / 2)\<close> rounds
  a half up, so for the integers \<open>l < r\<close> it is \<open>(r - l + 1) div 2\<close>.
\<close>

function timeSearchLoop :: "cue_point list \<Rightarrow> real \<Rightarrow> nat \<Rightarrow> nat \<Rightarrow> nat" where
  "timeSearchLoop cs t l r =
     (if l + 1 < r then
        (if cueTime (cs ! (l + (r - l + 1) div 2)) \<le> t
         then timeSearchLoop cs t (l + (r - l + 1) div 2) r
         else timeSearchLoop cs t l (l + (r - l + 1) div 2))
      else l)"
  by pat_completeness auto
termination
  by (relation "measure (\<lambda>(cs, t, l, r). r - l)") auto

definition getCueIndexFromTime :: "WebMParser \<Rightarrow> real \<Rightarrow> nat status" where
  "getCueIndexFromTime p t =
     (case getCues p of
        None \<Rightarrow> STATUS_INVALID_DATA
      | Some cs \<Rightarrow>
          if length cs = 0 then STATUS_INVALID_DATA
          else
            let r = length cs - 1;
                l = (if t \<ge> cueTime (cs ! r) then r else 0)
            in STATUS_OK (timeSearchLoop cs t l r))"

text \<open>
  JavaScript numbers are modelled as reals.  A division by zero gives \<open>Infinity\<close> or
  \<open>NaN\<close> in JavaScript and has no real value: \<open>jsDiv\<close> returns \<open>None\<close> there, and
  so does the projection that contains it.
\<close>

definition jsDiv :: "real \<Rightarrow> real \<Rightarrow> real option" where
  "jsDiv a b = (if b = 0 then None else Some (a / b))"

text \<open>The status object of \<open>bufferSizeAfterTime\<close>: \<open>seconds\<close> and \<open>buffer\<close>.\<close>

datatype buffer_result = BufferResult (seconds: real) (buffer: real)

text \<open>
  The first block of \<open>bufferSizeAfterTime\<close>, for a start time inside the starting
  cue: it returns \<open>secDownloading\<close>, \<open>secDownloaded\<close> and the next index.
\<close>

definition firstCueStep ::
  "cueDesc \<Rightarrow> real \<Rightarrow> real \<Rightarrow> real \<Rightarrow> nat \<Rightarrow> (real \<times> real \<times> nat) option" where
  "firstCueStep currentCueDesc t timeToSearch kbps index =
     (if t > cdTime currentCueDesc then
        (let cueSec = cdEndTime currentCueDesc - t in
         case jsDiv cueSec (cdEndTime currentCueDesc - cdTime currentCueDesc) of
           None \<Rightarrow> None
         | Some percent \<Rightarrow>
             (let cueBytes = real_of_int (cdSize currentCueDesc) * percent in
              case jsDiv ((cueBytes * 8) / 1000) kbps of
                None \<Rightarrow> None
              | Some timeToDownload \<Rightarrow>
                  if 0 + timeToDownload > timeToSearch then
                    (case jsDiv timeToSearch (0 + timeToDownload) of
                       None \<Rightarrow> None
                     | Some q \<Rightarrow> Some (timeToSearch, q * (0 + cueSec), index + 1))
                  else Some (0 + timeToDownload, 0 + cueSec, index + 1)))
      else Some (0, 0, index))"

text \<open>
  The \<open>while\<close> loop of \<open>bufferSizeAfterTime\<close>, with \<open>n = cues.length\<close>; the
  result is the final \<open>secDownloading\<close> and \<open>secDownloaded\<close>, or the status object of
  a failed \<open>getCueDescFromCue_\<close>.
\<close>

function projectLoop ::
  "WebMParser \<Rightarrow> nat \<Rightarrow> real \<Rightarrow> real \<Rightarrow> nat \<Rightarrow> real \<Rightarrow> real \<Rightarrow> (real \<times> real) status option" where
  "projectLoop p n timeToSearch kbps index secDownloading secDownloaded =
     (if index < n \<and> secDownloading < timeToSearch then
        (case getCueDescFromCue p index of
           STATUS_INVALID_DATA \<Rightarrow> Some STATUS_INVALID_DATA
         | STATUS_NEED_MORE_DATA k \<Rightarrow> Some (STATUS_NEED_MORE_DATA k)
         | STATUS_OK currentCueDesc \<Rightarrow>
             (case jsDiv ((real_of_int (cdSize currentCueDesc) * 8) / 1000) kbps of
                None \<Rightarrow> None
              | Some timeToDownload \<Rightarrow>
                  if secDownloading + timeToDownload > timeToSearch then
                    (case jsDiv timeToSearch (secDownloading + timeToDownload) of
                       None \<Rightarrow> None
                     | Some q \<Rightarrow>
                         Some (STATUS_OK (timeToSearch,
                           q * (secDownloaded + (cdEndTime currentCueDesc - cdTime currentCueDesc)))))
                  else
                    projectLoop p n timeToSearch kbps (Suc index)
                      (secDownloading + timeToDownload)
                      (secDownloaded + (cdEndTime currentCueDesc - cdTime currentCueDesc))))
      else Some (STATUS_OK (secDownloading, secDownloaded)))"
  by pat_completeness auto
termination
  by (relation "measure (\<lambda>(p, n, timeToSearch, kbps, index, a, b). n - index)") auto

definition bufferSizeAfterTime ::
  "WebMParser \<Rightarrow> real \<Rightarrow> real \<Rightarrow> real \<Rightarrow> real \<Rightarrow> buffer_result status option" where
  "bufferSizeAfterTime p t timeToSearch kbps bufferNow =
     (case getCueIndexFromTime p t of
        STATUS_INVALID_DATA \<Rightarrow> Some STATUS_INVALID_DATA
      | STATUS_NEED_MORE_DATA k \<Rightarrow> Some (STATUS_NEED_MORE_DATA k)
      | STATUS_OK startingIndex \<Rightarrow>
          (case getCueDescFromCue p startingIndex of
             STATUS_INVALID_DATA \<Rightarrow> Some STATUS_INVALID_DATA
           | STATUS_NEED_MORE_DATA k \<Rightarrow> Some (STATUS_NEED_MORE_DATA k)
           | STATUS_OK currentCueDesc \<Rightarrow>
               (case firstCueStep currentCueDesc t timeToSearch kbps startingIndex of
                  None \<Rightarrow> None
                | Some (secDownloading0, secDownloaded0, index) \<Rightarrow>
                    (case getCues p of
                       None \<Rightarrow> Some STATUS_INVALID_DATA
                     | Some cs \<Rightarrow>
                         if length cs = 0 then Some STATUS_INVALID_DATA
                         else
                           (case projectLoop p (length cs) timeToSearch kbps index
                                   secDownloading0 secDownloaded0 of
                              None \<Rightarrow> None
                            | Some STATUS_INVALID_DATA \<Rightarrow> Some STATUS_INVALID_DATA
                            | Some (STATUS_NEED_MORE_DATA k) \<Rightarrow> Some (STATUS_NEED_MORE_DATA k)
                            | Some (STATUS_OK (secDownloading, secDownloaded)) \<Rightarrow>
                                Some (STATUS_OK
                                  (BufferResult secDownloading
                                     (secDownloaded - secDownloading + bufferNow))))))))"

section \<open>AdaptiveWebMFile and AdaptiveWebMStream (adaptive/dash_player_deprecated.js)\<close>

text \<open>
  \<open>AdaptiveWebMFile.canSeek\<close> is \<open>this.parser && this.parser.canSeek()\<close>: when
  \<open>parser\<close> is \<open>null\<close> the expression has the value \<open>null\<close> (here \<open>None\<close>),
  otherwise the boolean of the file parser.  Callers use it as a condition.
\<close>

record AdaptiveWebMFile =
  fileParser :: "WebMFileParser option"

definition AdaptiveWebMFile_canSeek :: "AdaptiveWebMFile \<Rightarrow> bool option" where
  "AdaptiveWebMFile_canSeek f =
     (case fileParser f of None \<Rightarrow> None | Some fp \<Rightarrow> Some (WebMFileParser_canSeek fp))"

definition truthy :: "bool option \<Rightarrow> bool" where
  "truthy v = (v = Some True)"

text \<open>
  The properties of \<open>AdaptiveWebMStream\<close>.  \<open>source\<close> refers to the stream's current
  \<open>AdaptiveWebMFile\<close>; the functions modelled here only compare and log it, so it is
  the representation's number.  \<open>cueDesc\<close> is the descriptor the player attaches to the
  stream for the cue being fetched.
\<close>

record AdaptiveWebMStream =
  checkSwitching :: bool
  cueDescQueue :: "cueDesc list"
  clusterQueue :: "Uint8Array list"
  clusterQueueThreshold :: int
  cueBytesDownloaded :: int
  fetchingClusters :: bool
  endOfClusters :: bool
  lastTimeSent :: real
  source :: "nat option"
  cueDesc :: cueDesc

definition resetStreamData :: "AdaptiveWebMStream \<Rightarrow> AdaptiveWebMStream" where
  "resetStreamData s =
     s\<lparr>checkSwitching := False, cueDescQueue := [], clusterQueue := [],
       clusterQueueThreshold := 30, cueBytesDownloaded := 0, fetchingClusters := False,
       endOfClusters := False, lastTimeSent := 0\<rparr>"

definition reset :: "AdaptiveWebMStream \<Rightarrow> AdaptiveWebMStream" where
  "reset s = (resetStreamData s)\<lparr>source := None\<rparr>"

text \<open>
  \<open>front\<close> reads \<open>this.cueDescQueue[0].endTime\<close> before it shifts the queues: with
  a cluster queued and no descriptor the read is on \<open>undefined\<close> and throws.
\<close>

definition front :: "AdaptiveWebMStream \<Rightarrow> Uint8Array option completion \<times> AdaptiveWebMStream" where
  "front s =
     (if length (clusterQueue s) > 0 then
        (case cueDescQueue s of
           [] \<Rightarrow> (TypeError, s)
         | cue # rest \<Rightarrow>
             (Normal (Some (hd (clusterQueue s))),
              s\<lparr>lastTimeSent := cdEndTime cue, clusterQueue := tl (clusterQueue s),
                cueDescQueue := rest\<rparr>))
      else (Normal None, s))"

definition checkFront ::
  "AdaptiveWebMStream \<Rightarrow> real \<Rightarrow> Uint8Array option completion \<times> AdaptiveWebMStream" where
  "checkFront s t =
     (if length (clusterQueue s) > 0 then
        (case cueDescQueue s of
           [] \<Rightarrow> (TypeError, s)
         | cue # rest \<Rightarrow>
             if cdTime cue \<le> t then
               (Normal (Some (hd (clusterQueue s))),
                s\<lparr>clusterQueue := tl (clusterQueue s), cueDescQueue := rest,
                  lastTimeSent := cdEndTime cue\<rparr>)
             else (Normal None, s))
      else (Normal None, s))"

definition empty :: "AdaptiveWebMStream \<Rightarrow> bool" where
  "empty s = (length (clusterQueue s) = 0)"

definition addNewCluster :: "AdaptiveWebMStream \<Rightarrow> bool" where
  "addNewCluster s =
     (\<not> endOfClusters s \<and> \<not> fetchingClusters s
      \<and> int (length (clusterQueue s)) < clusterQueueThreshold s)"

section \<open>DashPlayer (adaptive/dash_player_deprecated.js)\<close>

datatype player_state = STOPPED | PARSING_HEADERS | LOADING | SEEKING | ERROR

datatype stream_type = Video | Audio

text \<open>
  What the player does to its surroundings is recorded in the player's state, in order:
  the calls on the video element (the sink), the callbacks handed to
  \<open>window.setTimeout\<close>, the fetches handed to the streams' parsers together with the
  sequence number their completion callback captures, and the \<open>chunk_download\<close>
  events.
\<close>

datatype eos_code = EOS_NO_ERROR | EOS_DECODE_ERR

datatype sink_call = SourceAppend Uint8Array | SourceEndOfStream eos_code

datatype task = RunStartSeek | RunSendClusters | RunSendPartialClusters

datatype fetch =
    GetClusterFromCueDesc stream_type cueDesc int int
  | FetchCueData stream_type cueDesc int

record chunk_event =
  evType :: stream_type
  evId :: "nat option"
  evTime :: real
  evEndTime :: real

text \<open>
  \<open>adaptiveStreams_['video']\<close> always exists once streaming starts;
  \<open>adaptiveStreams_['audio']\<close> may be absent.  The streams of a player have a source
  (\<open>initializeFirstStreams_\<close> sets it before any fetch), so the reads of
  \<open>stream.source\<close> in log messages succeed.  \<open>sourceOpen\<close> stands for
  \<open>videoElement.webkitSourceState == SOURCE_OPEN\<close> and \<open>chunkDownloadCallback\<close> for
  a registered \<open>eventCallbacks_['chunk_download']\<close>.
\<close>

record DashPlayer =
  state :: player_state
  seekSequenceNum :: int
  audioVideoBufferThreshold :: real
  video :: AdaptiveWebMStream
  audio :: "AdaptiveWebMStream option"
  sourceOpen :: bool
  chunkDownloadCallback :: bool
  sinkCalls :: "sink_call list"
  timeouts :: "task list"
  fetches :: "fetch list"
  chunkEvents :: "chunk_event list"

definition getStream :: "DashPlayer \<Rightarrow> stream_type \<Rightarrow> AdaptiveWebMStream option" where
  "getStream p st = (case st of Video \<Rightarrow> Some (video p) | Audio \<Rightarrow> audio p)"

definition putStream :: "DashPlayer \<Rightarrow> stream_type \<Rightarrow> AdaptiveWebMStream \<Rightarrow> DashPlayer" where
  "putStream p st s = (case st of Video \<Rightarrow> p\<lparr>video := s\<rparr> | Audio \<Rightarrow> p\<lparr>audio := Some s\<rparr>)"

definition setTimeout :: "DashPlayer \<Rightarrow> task \<Rightarrow> DashPlayer" where
  "setTimeout p t = p\<lparr>timeouts := timeouts p @ [t]\<rparr>"

definition changeState :: "DashPlayer \<Rightarrow> player_state \<Rightarrow> DashPlayer" where
  "changeState p newState = p\<lparr>state := newState\<rparr>"

definition reportParseError :: "DashPlayer \<Rightarrow> DashPlayer" where
  "reportParseError p =
     (let p1 = changeState p ERROR in
      if sourceOpen p1 then p1\<lparr>sinkCalls := sinkCalls p1 @ [SourceEndOfStream EOS_DECODE_ERR]\<rparr>
      else p1)"

definition appendData :: "DashPlayer \<Rightarrow> Uint8Array \<Rightarrow> DashPlayer" where
  "appendData p data =
     (if state p = LOADING then p\<lparr>sinkCalls := sinkCalls p @ [SourceAppend data]\<rparr> else p)"

definition endOfStream :: "DashPlayer \<Rightarrow> DashPlayer" where
  "endOfStream p = p\<lparr>sinkCalls := sinkCalls p @ [SourceEndOfStream EOS_NO_ERROR]\<rparr>"

text \<open>\<open>if (data) this.appendData(data)\<close>: a buffer is truthy, \<open>null\<close> is not.\<close>

definition appendIfData :: "DashPlayer \<Rightarrow> Uint8Array option \<Rightarrow> DashPlayer" where
  "appendIfData p data = (case data of None \<Rightarrow> p | Some d \<Rightarrow> appendData p d)"

text \<open>
  \<open>fetchMoreClusters\<close> and \<open>fetchPartialClusters\<close> differ only in the parser
  function they call; \<open>mk\<close> builds the recorded fetch from the stream, its cueDesc and
  the sequence number captured at issue time.
\<close>

definition issueFetches ::
  "(stream_type \<Rightarrow> cueDesc \<Rightarrow> int \<Rightarrow> fetch) \<Rightarrow> DashPlayer \<Rightarrow> DashPlayer" where
  "issueFetches mk p =
     (let vid = video p;
          delta = (case audio p of
                     None \<Rightarrow> 0
                   | Some aud \<Rightarrow> cdTime (cueDesc vid) - cdTime (cueDesc aud));
          p1 = (if addNewCluster vid \<and> delta < audioVideoBufferThreshold p
                then p\<lparr>video := vid\<lparr>fetchingClusters := True\<rparr>,
                       fetches := fetches p @ [mk Video (cueDesc vid) (seekSequenceNum p)]\<rparr>
                else p)
      in
        case audio p1 of
          None \<Rightarrow> p1
        | Some aud \<Rightarrow>
            if addNewCluster aud
               \<and> cdTime (cueDesc aud) - cdTime (cueDesc (video p1)) < audioVideoBufferThreshold p1
            then p1\<lparr>audio := Some (aud\<lparr>fetchingClusters := True\<rparr>),
                    fetches := fetches p1 @ [mk Audio (cueDesc aud) (seekSequenceNum p1)]\<rparr>
            else p1)"

definition fetchMoreClusters :: "DashPlayer \<Rightarrow> DashPlayer" where
  "fetchMoreClusters p = issueFetches (\<lambda>st cd seqNum. GetClusterFromCueDesc st cd 0 seqNum) p"

definition fetchPartialClusters :: "DashPlayer \<Rightarrow> DashPlayer" where
  "fetchPartialClusters p = issueFetches (\<lambda>st cd seqNum. FetchCueData st cd seqNum) p"

text \<open>The hand-off of the video stream's front cluster, common to both send functions.\<close>

definition sendVideoFront :: "DashPlayer \<Rightarrow> unit completion \<times> DashPlayer" where
  "sendVideoFront p =
     (case front (video p) of
        (TypeError, vid') \<Rightarrow> (TypeError, p)
      | (Normal data, vid') \<Rightarrow> (Normal (), appendIfData (p\<lparr>video := vid'\<rparr>) data))"

text \<open>
  The hand-off of the audio stream, when there is one.  \<open>sendClusters\<close> always uses
  \<open>aud.checkFront(vid.lastTimeSent_)\<close>; \<open>sendPartialClusters\<close> uses
  \<open>aud.front()\<close> instead once the video stream is at its end and empty
  (\<open>unconditional\<close>).
\<close>

definition sendAudio :: "bool \<Rightarrow> DashPlayer \<Rightarrow> unit completion \<times> DashPlayer" where
  "sendAudio unconditional p =
     (case audio p of
        None \<Rightarrow> (Normal (), p)
      | Some aud \<Rightarrow>
          (case (if unconditional then front aud
                 else checkFront aud (lastTimeSent (video p))) of
             (TypeError, aud') \<Rightarrow> (TypeError, p)
           | (Normal data, aud') \<Rightarrow>
               (Normal (), appendIfData (p\<lparr>audio := Some aud'\<rparr>) data)))"

definition sendClusters :: "DashPlayer \<Rightarrow> unit completion \<times> DashPlayer" where
  "sendClusters p =
     (case sendAudio False p of
        (TypeError, p1) \<Rightarrow> (TypeError, p1)
      | (Normal u, p1) \<Rightarrow>
          (case sendVideoFront p1 of
             (TypeError, p2) \<Rightarrow> (TypeError, p2)
           | (Normal u, p2) \<Rightarrow>
               (let p3 = (if endOfClusters (video p2) then
                            (case audio p2 of
                               Some aud \<Rightarrow> if endOfClusters aud then endOfStream p2 else p2
                             | None \<Rightarrow> endOfStream p2)
                          else p2)
                in (Normal (), fetchMoreClusters p3))))"

definition sendPartialClusters :: "DashPlayer \<Rightarrow> unit completion \<times> DashPlayer" where
  "sendPartialClusters p =
     (case sendAudio (endOfClusters (video p) \<and> empty (video p)) p of
        (TypeError, p1) \<Rightarrow> (TypeError, p1)
      | (Normal u, p1) \<Rightarrow>
          (case sendVideoFront p1 of
             (TypeError, p2) \<Rightarrow> (TypeError, p2)
           | (Normal u, p2) \<Rightarrow>
               (Normal (),
                if endOfClusters (video p2) \<and> empty (video p2) then
                  (case audio p2 of
                     Some aud \<Rightarrow>
                       if \<not> empty aud then setTimeout p2 RunSendPartialClusters
                       else if endOfClusters aud then endOfStream p2
                       else p2
                   | None \<Rightarrow> endOfStream p2)
                else p2)))"

text \<open>
  The \<open>chunk_download\<close> notification of the two download callbacks: the type is
  \<open>'video'\<close> when the stream's source is the video stream's source.
\<close>

definition notifyChunkDownload :: "DashPlayer \<Rightarrow> AdaptiveWebMStream \<Rightarrow> DashPlayer" where
  "notifyChunkDownload p stream =
     (if chunkDownloadCallback p then
        p\<lparr>chunkEvents := chunkEvents p @
             [\<lparr>evType = (if source (video p) = source stream then Video else Audio),
               evId = source stream, evTime = cdTime (cueDesc stream),
               evEndTime = cdEndTime (cueDesc stream)\<rparr>]\<rparr>
      else p)"

text \<open>
  The completion callbacks get the stream object, the next cueDesc (or \<open>null\<close>), the
  sequence number captured when the fetch was issued, and the buffer (or \<open>null\<close>).
  The stream is named by its type; a callback exists only for a stream of the player, and
  for a type the player has no stream of the model stops as a read on \<open>undefined\<close>
  would.  The branches that log with \<open>logCue\<close> evaluate \<open>buf.length\<close> as an
  argument and throw when \<open>buf\<close> is \<open>null\<close>.  The bitrate switch
  \<open>checkVideoStreamFutureTime\<close>, reached only on the accepting path after the buffer
  is queued, is the parameter \<open>chk\<close>.
\<close>

definition onClusterDownloadedDesc ::
  "(DashPlayer \<Rightarrow> DashPlayer) \<Rightarrow> DashPlayer \<Rightarrow> stream_type \<Rightarrow> cueDesc option \<Rightarrow> int
     \<Rightarrow> Uint8Array option \<Rightarrow> unit completion \<times> DashPlayer" where
  "onClusterDownloadedDesc chk p st nextCueDesc seqNum buf =
     (case getStream p st of
        None \<Rightarrow> (TypeError, p)
      | Some stream \<Rightarrow>
          if state p = SEEKING then
            (case buf of
               None \<Rightarrow> (TypeError, p)
             | Some b \<Rightarrow>
                 (Normal (),
                  setTimeout (putStream p st (stream\<lparr>fetchingClusters := False\<rparr>)) RunStartSeek))
          else if state p = STOPPED then
            (case buf of
               None \<Rightarrow> (TypeError, p)
             | Some b \<Rightarrow> (Normal (), putStream p st (stream\<lparr>fetchingClusters := False\<rparr>)))
          else if state p \<noteq> LOADING then
            (Normal (), putStream p st (stream\<lparr>fetchingClusters := False\<rparr>))
          else if seqNum \<noteq> seekSequenceNum p then
            (case buf of
               None \<Rightarrow> (TypeError, p)
             | Some b \<Rightarrow> (Normal (), putStream p st (stream\<lparr>fetchingClusters := False\<rparr>)))
          else
            (case buf of
               None \<Rightarrow>
                 (Normal (),
                  reportParseError
                    (putStream p st (stream\<lparr>fetchingClusters := False, endOfClusters := True\<rparr>)))
             | Some b \<Rightarrow>
                 (let s1 = stream\<lparr>cueBytesDownloaded := cueBytesDownloaded stream + int (length b),
                                  clusterQueue := clusterQueue stream @ [b],
                                  cueDescQueue := cueDescQueue stream @ [cueDesc stream]\<rparr>
                  in
                    if cueBytesDownloaded s1 = cdSize (cueDesc s1) then
                      (let s2 = s1\<lparr>fetchingClusters := False\<rparr>;
                           p1 = notifyChunkDownload (putStream p st s2) s2;
                           s3 = s2\<lparr>cueBytesDownloaded := 0\<rparr>;
                           p2 = (case nextCueDesc of
                                   None \<Rightarrow> putStream p1 st (s3\<lparr>endOfClusters := True\<rparr>)
                                 | Some next \<Rightarrow>
                                     (let p1' = putStream p1 st (s3\<lparr>cueDesc := next\<rparr>)
                                      in if checkSwitching s3 then chk p1' else p1'))
                       in (Normal (), setTimeout p2 RunSendClusters))
                    else
                      (let p1 = setTimeout (putStream p st s1) RunSendClusters in
                       (Normal (),
                        if \<not> endOfClusters s1
                           \<and> int (length (clusterQueue s1)) < clusterQueueThreshold s1
                        then p1\<lparr>fetches := fetches p1 @
                                  [GetClusterFromCueDesc st (cueDesc s1) (cueBytesDownloaded s1)
                                     (seekSequenceNum p1)]\<rparr>
                        else p1)))))"

definition onPartialCueDescDownload ::
  "(DashPlayer \<Rightarrow> DashPlayer) \<Rightarrow> DashPlayer \<Rightarrow> stream_type \<Rightarrow> cueDesc option \<Rightarrow> int
     \<Rightarrow> Uint8Array option \<Rightarrow> bool completion \<times> DashPlayer" where
  "onPartialCueDescDownload chk p st nextCueDesc seqNum buf =
     (case getStream p st of
        None \<Rightarrow> (TypeError, p)
      | Some stream \<Rightarrow>
          (let cueFinished = (case nextCueDesc of
                                Some next \<Rightarrow> cdOffset (cueDesc stream) \<noteq> cdOffset next
                              | None \<Rightarrow> True)
           in
             if state p = SEEKING then
               (case buf of
                  None \<Rightarrow> (TypeError, p)
                | Some b \<Rightarrow>
                    if cueFinished then
                      (Normal False,
                       setTimeout (putStream p st (stream\<lparr>fetchingClusters := False\<rparr>))
                         RunStartSeek)
                    else (Normal (fetchingClusters stream), p))
             else if state p = STOPPED then
               (case buf of
                  None \<Rightarrow> (TypeError, p)
                | Some b \<Rightarrow> (Normal False, putStream p st (stream\<lparr>fetchingClusters := False\<rparr>)))
             else if state p \<noteq> LOADING then
               (Normal False, putStream p st (stream\<lparr>fetchingClusters := False\<rparr>))
             else if seqNum \<noteq> seekSequenceNum p then
               (case buf of
                  None \<Rightarrow> (TypeError, p)
                | Some b \<Rightarrow>
                    if cueFinished then
                      (Normal False, putStream p st (stream\<lparr>fetchingClusters := False\<rparr>))
                    else (Normal (fetchingClusters stream), p))
             else
               (case buf of
                  None \<Rightarrow>
                    (Normal False,
                     reportParseError
                       (putStream p st
                          (stream\<lparr>fetchingClusters := False, endOfClusters := True\<rparr>)))
                | Some b \<Rightarrow>
                    (let s1 = stream\<lparr>cueBytesDownloaded := cueBytesDownloaded stream + int (length b),
                                     clusterQueue := clusterQueue stream @ [b],
                                     cueDescQueue := cueDescQueue stream @ [cueDesc stream]\<rparr>;
                         p2 =
                           (if cueFinished then
                              (let s2 = s1\<lparr>fetchingClusters := False\<rparr>;
                                   p1 = notifyChunkDownload (putStream p st s2) s2;
                                   s3 = s2\<lparr>cueBytesDownloaded := 0\<rparr>
                               in
                                 case nextCueDesc of
                                   None \<Rightarrow> putStream p1 st (s3\<lparr>endOfClusters := True\<rparr>)
                                 | Some next \<Rightarrow>
                                     (let p1' = putStream p1 st (s3\<lparr>cueDesc := next\<rparr>)
                                      in fetchPartialClusters
                                           (if checkSwitching s3 then chk p1' else p1')))
                            else putStream p st s1);
                         p3 = setTimeout p2 RunSendPartialClusters
                     in
                       case getStream p3 st of
                         None \<Rightarrow> (TypeError, p3)
                       | Some s \<Rightarrow> (Normal (fetchingClusters s), p3)))))"

declare squishLoop.simps [simp del]
declare findCueEnd.simps [simp del]
declare timeSearchLoop.simps [simp del]
declare projectLoop.simps [simp del]

section \<open>The specification's words\<close>

definition cueOffset :: "cue_point \<Rightarrow> int" where
  "cueOffset c = cueClusterPos (trackPosition c)"

text \<open>
  The specification's squish: walking the list in order, a cue point is removed exactly
  when its offset equals the offset of the cue point retained last before it
  (\<open>prev\<close>; \<open>None\<close> before the first cue point).
\<close>

fun dropAliased :: "int option \<Rightarrow> cue_point list \<Rightarrow> cue_point list" where
  "dropAliased prev [] = []"
| "dropAliased prev (c # cs) =
     (if prev = Some (cueOffset c) then dropAliased prev cs
      else c # dropAliased (Some (cueOffset c)) cs)"

text \<open>
  The specification's length of a variable-length number: the run of leading zero bits of
  the first byte, counted from the top bit, plus one; a first byte of 0 has no marker bit
  and no length.
\<close>

definition encodedLength :: "8 word \<Rightarrow> nat option" where
  "encodedLength b = map_option Suc (find (\<lambda>e. bit b (7 - e)) [0..<8])"

text \<open>
  The bytes a decoder is known to require, given a window of \<open>avail\<close> bytes at
  \<open>start\<close>.  With an empty window the marker byte itself is missing and is what is
  required: 1 byte.  Otherwise the first byte lies in the window and the requirement is
  the encoded length it announces, provided that is within \<open>maxBytes\<close>.
\<close>

definition windowRequiredBytes :: "Uint8Array \<Rightarrow> nat \<Rightarrow> nat \<Rightarrow> nat \<Rightarrow> nat option" where
  "windowRequiredBytes buf start avail maxBytes =
     (if avail = 0 then Some 1
      else
        case getByte buf start of
          None \<Rightarrow> None
        | Some b \<Rightarrow>
            (case encodedLength b of
               None \<Rightarrow> None
             | Some n \<Rightarrow> if n \<le> maxBytes then Some n else None))"

text \<open>
  The specification's unsigned integer: the bytes read as one big-endian number.
\<close>

definition bigEndian :: "8 word list \<Rightarrow> int" where
  "bigEndian bs = foldl (\<lambda>a b. a * 256 + uint b) 0 bs"

section \<open>Concrete parsers for the examples\<close>

definition cueAt :: "real \<Rightarrow> int \<Rightarrow> cue_point" where
  "cueAt t off = \<lparr>cueTime = t, trackPosition = \<lparr>cueTrack = 1, cueClusterPos = off\<rparr>\<rparr>"

definition parserWith :: "cue_point list \<Rightarrow> WebMParser" where
  "parserWith cs = newWebMParser\<lparr>cues := Some cs\<rparr>"

text \<open>A parser with cues, the Cues element at file offset \<open>c\<close>, and duration \<open>d\<close>.\<close>

definition indexedParser :: "cue_point list \<Rightarrow> int \<Rightarrow> real \<Rightarrow> WebMParser" where
  "indexedParser cs c d =
     newWebMParser\<lparr>cues := Some cs, seekHead := Some [''CUES'' \<mapsto> c], duration := d\<rparr>"

text \<open>
  A buffer that starts with a Segment element header (id \<open>18 53 80 67\<close>, size field
  \<open>81\<close>), and a list walker that rejects the Segment's children.
\<close>

definition segmentBuf :: Uint8Array where
  "segmentBuf = [0x18, 0x53, 0x80, 0x67, 0x81, 0xEC]"

definition noChildren :: segment_list_parser where
  "noChildren p buf start sz = STATUS_INVALID_DATA"

section \<open>Observations on streams and players\<close>

text \<open>The two queues of a stream hold the same number of entries.\<close>

definition lockstep :: "AdaptiveWebMStream \<Rightarrow> bool" where
  "lockstep s = (length (cueDescQueue s) = length (clusterQueue s))"

text \<open>What is queued in the player's streams: the cluster and cueDesc queues of each.\<close>

definition queued :: "AdaptiveWebMStream \<Rightarrow> Uint8Array list \<times> cueDesc list" where
  "queued s = (clusterQueue s, cueDescQueue s)"

definition queuedData ::
  "DashPlayer \<Rightarrow> (Uint8Array list \<times> cueDesc list) \<times> (Uint8Array list \<times> cueDesc list) option" where
  "queuedData p = (queued (video p), map_option queued (audio p))"

text \<open>A stream as the constructor leaves it, and a player in a given state.\<close>

definition newStream :: AdaptiveWebMStream where
  "newStream =
     \<lparr>checkSwitching = False, cueDescQueue = [], clusterQueue = [], clusterQueueThreshold = 30,
      cueBytesDownloaded = 0, fetchingClusters = False, endOfClusters = False,
      lastTimeSent = 0, source = None,
      cueDesc = \<lparr>cdTime = 0, cdOffset = 0, cdSize = - 1, cdEndTime = - 1\<rparr>\<rparr>"

definition playerWith ::
  "player_state \<Rightarrow> int \<Rightarrow> AdaptiveWebMStream \<Rightarrow> AdaptiveWebMStream option \<Rightarrow> DashPlayer" where
  "playerWith st n vid aud =
     \<lparr>state = st, seekSequenceNum = n, audioVideoBufferThreshold = 30, video = vid,
      audio = aud, sourceOpen = True, chunkDownloadCallback = False, sinkCalls = [],
      timeouts = [], fetches = [], chunkEvents = []\<rparr>"

definition playerLockstep :: "DashPlayer \<Rightarrow> bool" where
  "playerLockstep p =
     (lockstep (video p) \<and> (case audio p of None \<Rightarrow> True | Some a \<Rightarrow> lockstep a))"

text \<open>Every active track is at its end of clusters and has nothing queued.\<close>

definition allDrained :: "DashPlayer \<Rightarrow> bool" where
  "allDrained p =
     (endOfClusters (video p) \<and> empty (video p)
      \<and> (case audio p of None \<Rightarrow> True | Some a \<Rightarrow> endOfClusters a \<and> empty a))"

text \<open>
  A player whose video stream has ended and is empty, with last sent time 10, and whose
  audio stream has ended with one cluster still queued that starts at 10.5.
\<close>

definition queuedCue :: "real \<Rightarrow> real \<Rightarrow> cueDesc" where
  "queuedCue t e = \<lparr>cdTime = t, cdOffset = 0, cdSize = 1, cdEndTime = e\<rparr>"

definition audioPending :: DashPlayer where
  "audioPending =
     playerWith LOADING 0
       (newStream\<lparr>endOfClusters := True, lastTimeSent := 10\<rparr>)
       (Some (newStream\<lparr>endOfClusters := True, clusterQueue := [[7]],
                cueDescQueue := [queuedCue (21 / 2) 11]\<rparr>))"

text \<open>
  Two cues of one second each, the first of 125000 bytes and the second of 875000 bytes
  (the Cues element follows at offset 1001000), in a file of 2 seconds.
\<close>

definition vbrParser :: WebMParser where
  "vbrParser = indexedParser [cueAt 0 1000, cueAt 1 126000] 1001000 2"

section \<open>Properties: EbmlParser\<close>

text \<open>
  The marker scan of \<open>parseNum_\<close> against the specification's length: the test
  \<open>(ch & mask) == mask\<close> with the mask \<open>2 ^ j\<close> reads bit \<open>j\<close> of the first
  byte, so within the first eight steps the scan stops at the first set bit from the top,
  and a number whose encoded length is within \<open>maxBytes\<close> is found with
  \<open>extraBytes\<close> one less than its length.
\<close>

lemma marker_test:
  fixes b :: "8 word"
  assumes "j < 8"
  shows "((ucast b :: 32 word) AND 2 ^ j = 2 ^ j) \<longleftrightarrow> bit b j"
proof -
  have u: "bit (ucast b :: 32 word) j \<longleftrightarrow> bit b j"
    using assms by (simp add: bit_ucast_iff)
  let ?a = "ucast b :: 32 word"
  have nz: "(2 ^ j :: 32 word) \<noteq> 0" using assms by simp
  have "?a AND 2 ^ j = 2 ^ j" if "bit ?a j"
    using that by (intro bit_word_eqI) (auto simp: bit_and_iff bit_exp_iff)
  moreover have "bit ?a j" if "?a AND 2 ^ j = 2 ^ j"
    using that nz and_exp_eq_0_iff_not_bit [of ?a j] by auto
  ultimately have "(?a AND 2 ^ j = 2 ^ j) \<longleftrightarrow> bit ?a j" by blast
  with u show ?thesis by simp
qed

lemma scanMarker_find:
  "i + n \<le> 8 \<Longrightarrow>
   map_option fst (scanMarker (ucast (b :: 8 word)) (2 ^ (7 - i)) i n)
     = find (\<lambda>e. bit b (7 - e)) [i..<i + n]"
proof (induction n arbitrary: i)
  case 0
  then show ?case by simp
next
  case (Suc n)
  then have i: "i \<le> 7" by simp
  have test: "((ucast b :: 32 word) AND 2 ^ (7 - i) = 2 ^ (7 - i)) \<longleftrightarrow> bit b (7 - i)"
    by (rule marker_test) simp
  have upt: "[i..<i + Suc n] = i # [Suc i..<Suc i + n]"
    by (simp add: upt_conv_Cons)
  show ?case
  proof (cases "bit b (7 - i)")
    case True
    then show ?thesis using test unfolding upt by simp
  next
    case False
    show ?thesis
    proof (cases n)
      case 0
      then show ?thesis using False test unfolding upt by simp
    next
      case (Suc m)
      with Suc.prems have lt: "i < 7" by simp
      then have "drop_bit 1 (2 ^ (7 - i) :: 32 word) = 2 ^ (7 - Suc i)"
        by (auto simp: drop_bit_exp_eq Suc_diff_Suc)
      moreover have "map_option fst (scanMarker (ucast b) (2 ^ (7 - Suc i)) (Suc i) n)
                       = find (\<lambda>e. bit b (7 - e)) [Suc i..<Suc i + n]"
        using Suc.IH [of "Suc i"] Suc.prems by simp
      ultimately show ?thesis using False test unfolding upt by simp
    qed
  qed
qed

lemma scanMarker_more_fuel:
  "scanMarker ch msk i n = Some r \<Longrightarrow> scanMarker ch msk i (n + k) = Some r"
  by (induction n arbitrary: msk i) (simp_all split: if_splits)

lemma find_upt_prefix:
  assumes "find P [0..<m] = Some e" and "e < k" and "k \<le> m"
  shows "find P [0..<k] = Some e"
proof -
  from assms(1) obtain i where i: "i < length [0..<m]" "P ([0..<m] ! i)" "e = [0..<m] ! i"
    "\<forall>j<i. \<not> P ([0..<m] ! j)"
    unfolding find_Some_iff by blast
  then have ei: "e = i" by simp
  have "i < length [0..<k]" using ei assms(2) by simp
  moreover have "P ([0..<k] ! i)" using i(2) ei assms(2,3) by simp
  moreover have "e = [0..<k] ! i" using ei assms(2) by simp
  moreover have "\<forall>j<i. \<not> P ([0..<k] ! j)" using i(4) ei assms(2,3) by simp
  ultimately show ?thesis unfolding find_Some_iff by blast
qed

lemma scanMarker_encodedLength:
  assumes "encodedLength b = Some n" and "n \<le> maxBytes"
  shows "map_option fst (scanMarker (ucast b) 0x80 0 maxBytes) = Some (n - 1) \<and> 0 < n"
proof -
  from assms(1) obtain e where e: "find (\<lambda>e. bit b (7 - e)) [0..<8] = Some e" "n = Suc e"
    by (auto simp: encodedLength_def)
  then have "e < length [0..<8::nat]" "e = [0..<8] ! e"
    unfolding find_Some_iff by auto
  then have "e < 8" by simp
  then have n8: "n \<le> 8" using e by simp
  have "find (\<lambda>e. bit b (7 - e)) [0..<n] = Some e"
  proof (rule find_upt_prefix [where m = 8])
    show "find (\<lambda>e. bit b (7 - e)) [0..<8] = Some e" by (rule e(1))
    show "e < n" using e(2) by simp
    show "n \<le> 8" by (rule n8)
  qed
  then have "map_option fst (scanMarker (ucast b) (2 ^ (7 - 0)) 0 n) = Some e"
    using scanMarker_find [of 0 n b] n8 by simp
  then obtain msk where "scanMarker (ucast b) 0x80 0 n = Some (e, msk)"
    by auto
  then have "scanMarker (ucast b) 0x80 0 (n + (maxBytes - n)) = Some (e, msk)"
    by (rule scanMarker_more_fuel)
  then show ?thesis using assms(2) e by simp
qed

lemma parseNum_short_window:
  assumes "windowRequiredBytes buf start avail maxBytes = Some n" and "avail < n"
  shows "parseNum buf start (int avail) maxBytes maskFirstByte =
           STATUS_NEED_MORE_DATA (int n - int avail)"
proof (cases "avail = 0")
  case True
  then show ?thesis using assms by (simp add: parseNum_def windowRequiredBytes_def)
next
  case False
  with assms(1) obtain b where b: "getByte buf start = Some b" "encodedLength b = Some n"
    "n \<le> maxBytes"
    by (auto simp: windowRequiredBytes_def split: option.splits if_splits)
  from scanMarker_encodedLength [OF b(2,3)]
  obtain msk where "scanMarker (ucast b) 0x80 0 maxBytes = Some (n - 1, msk)" "0 < n"
    by auto
  then show ?thesis using False assms(2) b(1)
    by (simp add: parseNum_def toInt32_def Let_def)
qed

lemma parseNum_OK_bytesUsed:
  "parseNum buf start sz maxBytes m = STATUS_OK r \<Longrightarrow> 0 < bytesUsed r \<and> bytesUsed r \<le> sz"
  by (auto simp: parseNum_def Let_def split: option.splits prod.splits if_splits)

text \<open>
  C1.  For every buffer, start offset and available size: when the variable-length number
  at that position requires more bytes than are available (with an empty window the
  marker byte itself is missing and is the byte required), \<open>parseNum_\<close> returns
  NEED_MORE_DATA with a deficit of exactly the required bytes minus the available bytes,
  and it does not return INVALID_DATA.
\<close>

theorem parseNum_need_more_data:
  assumes "windowRequiredBytes buf start avail maxBytes = Some n" and "avail < n"
  shows "parseNum buf start (int avail) maxBytes maskFirstByte =
           STATUS_NEED_MORE_DATA (int n - int avail)
         \<and> parseNum buf start (int avail) maxBytes maskFirstByte \<noteq> STATUS_INVALID_DATA"
proof (cases "avail = 0")
  case True
  then show ?thesis using assms by (simp add: parseNum_def windowRequiredBytes_def)
next
  case False
  with assms(1) obtain b where b: "getByte buf start = Some b" "encodedLength b = Some n"
    "n \<le> maxBytes"
    by (auto simp: windowRequiredBytes_def split: option.splits if_splits)
  from scanMarker_encodedLength [OF b(2,3)]
  obtain msk where "scanMarker (ucast b) 0x80 0 maxBytes = Some (n - 1, msk)" "0 < n"
    by auto
  then show ?thesis using False assms(2) b(1)
    by (simp add: parseNum_def toInt32_def Let_def)
qed

theorem parseNum_need_more_data_witness:
  "windowRequiredBytes [0x2A, 0xD7, 0xB1] 0 1 4 = Some 3
   \<and> parseNum [0x2A, 0xD7, 0xB1] 0 1 4 False = STATUS_NEED_MORE_DATA 2
   \<and> parseNum [0x2A, 0xD7, 0xB1] 0 2 4 False = STATUS_NEED_MORE_DATA 1
   \<and> windowRequiredBytes [0x2A, 0xD7, 0xB1] 0 0 4 = Some 1
   \<and> parseNum [0x2A, 0xD7, 0xB1] 0 0 4 False = STATUS_NEED_MORE_DATA 1"
proof -
  have r1: "windowRequiredBytes [0x2A, 0xD7, 0xB1] 0 1 4 = Some 3" by code_simp
  have r2: "windowRequiredBytes [0x2A, 0xD7, 0xB1] 0 2 4 = Some 3" by code_simp
  have r0: "windowRequiredBytes [0x2A, 0xD7, 0xB1] 0 0 4 = Some 1" by code_simp
  have "parseNum [0x2A, 0xD7, 0xB1] 0 1 4 False = STATUS_NEED_MORE_DATA 2"
    using parseNum_need_more_data [OF r1, of False] by simp
  moreover have "parseNum [0x2A, 0xD7, 0xB1] 0 2 4 False = STATUS_NEED_MORE_DATA 1"
    using parseNum_need_more_data [OF r2, of False] by simp
  moreover have "parseNum [0x2A, 0xD7, 0xB1] 0 0 4 False = STATUS_NEED_MORE_DATA 1"
    using parseNum_need_more_data [OF r0, of False] by simp
  ultimately show ?thesis using r1 r0 by simp
qed

text \<open>
  The element header reader passes both deficits on unchanged: a short id, and a short
  size field after a complete id.  When the window ends right after the id, the size
  field is parsed with an empty window and the header's deficit is 1.
\<close>

lemma parseElementHeader_id_short:
  assumes "avail \<noteq> 0" and "windowRequiredBytes buf start avail 4 = Some n" and "avail < n"
  shows "parseElementHeader buf start (int avail) = STATUS_NEED_MORE_DATA (int n - int avail)"
  using parseNum_short_window [OF assms(2,3), of False] assms(1)
  by (simp add: parseElementHeader_def)

lemma parseElementHeader_size_short:
  assumes "parseNum buf start (int avail) 4 False = STATUS_OK r"
    and "windowRequiredBytes buf (start + nat (bytesUsed r)) (avail - nat (bytesUsed r)) 8 = Some n"
    and "avail - nat (bytesUsed r) < n"
  shows "parseElementHeader buf start (int avail) =
           STATUS_NEED_MORE_DATA (int n - int (avail - nat (bytesUsed r)))"
proof -
  define d where "d = int n - int (avail - nat (bytesUsed r))"
  from assms(1) have pos: "0 < bytesUsed r" "bytesUsed r \<le> int avail"
    using parseNum_OK_bytesUsed by blast+
  then have ne: "int avail \<noteq> 0" by simp
  from pos have rest: "int (avail - nat (bytesUsed r)) = int avail - bytesUsed r" by simp
  have "parseNum buf (start + nat (bytesUsed r)) (int (avail - nat (bytesUsed r))) 8 True
          = STATUS_NEED_MORE_DATA d"
    unfolding d_def by (rule parseNum_short_window [OF assms(2,3)])
  then have second:
    "parseNum buf (start + nat (bytesUsed r)) (int avail - bytesUsed r) 8 True
       = STATUS_NEED_MORE_DATA d"
    by (simp only: rest)
  have "parseElementHeader buf start (int avail) = STATUS_NEED_MORE_DATA d"
    using assms(1) pos(1) ne second by (simp add: parseElementHeader_def)
  then show ?thesis by (simp only: d_def)
qed

lemma parseElementHeader_window_ends_after_id:
  "parseElementHeader [0xEC, 0x40, 0x01] 0 1 = STATUS_NEED_MORE_DATA 1"
  by code_simp

lemma parseElementHeader_empty: "parseElementHeader buf start 0 = STATUS_OK (ElementHeader 0 None None)"
  by (simp add: parseElementHeader_def)

text \<open>The range check and the byte count of \<open>parseUInt\<close>.\<close>

lemma parseUInt_invalid_iff:
  "parseUInt buf start sz = STATUS_INVALID_DATA \<longleftrightarrow> sz < 1 \<or> sz > 8"
  by (simp add: parseUInt_def)

lemma parseUInt_bytesUsed:
  "parseUInt buf start sz = STATUS_OK r \<Longrightarrow> bytesUsed r = sz \<and> 1 \<le> sz \<and> sz \<le> 8"
  by (auto simp: parseUInt_def split: if_splits)

text \<open>
  One step of the accumulation is exact while the value so far fits in three bytes, so
  up to three bytes \<open>parseUInt\<close> does return the big-endian unsigned integer.
\<close>

lemma int_and0: "0 \<le> y \<Longrightarrow> y < 256 \<Longrightarrow> push_bit 8 (x::int) AND y = 0"
proof -
  assume "0 \<le> y" "y < 256"
  then have y: "take_bit 8 y = y" by (simp add: take_bit_int_eq_self)
  have "push_bit 8 x AND take_bit 8 y = take_bit 8 (push_bit 8 x AND y)"
    by (simp add: take_bit_eq_mask and.assoc)
  also have "\<dots> = take_bit 8 (push_bit 8 x) AND take_bit 8 y"
    by simp
  also have "\<dots> = 0" by (simp add: take_bit_push_bit)
  finally show ?thesis using y by simp
qed

lemma int_or_add: "0 \<le> y \<Longrightarrow> y < 256 \<Longrightarrow> push_bit 8 (x::int) OR y = x * 256 + y"
  using disjunctive_add_eq_or [of "push_bit 8 x" y] int_and0 [of y x]
  by (simp add: push_bit_eq_mult)

lemma int_and_255: "0 \<le> y \<Longrightarrow> y < 256 \<Longrightarrow> (y::int) AND 255 = y"
proof -
  assume "0 \<le> y" "y < 256"
  then have "take_bit 8 y = y" by (simp add: take_bit_int_eq_self)
  moreover have "(255::int) = mask 8" by (simp add: mask_eq_exp_minus_1)
  ultimately show ?thesis by (simp add: take_bit_eq_mask)
qed

lemma uint_byte: "uint (b :: 8 word) < 256" "0 \<le> uint b"
  using uint_lt2p [of b] by simp_all

lemma byte_step:
  fixes v :: "32 word" and b :: "8 word"
  assumes "uint v < 2 ^ 24"
  shows "uint (push_bit 8 v OR (ucast b AND 255)) = uint v * 256 + uint b"
proof -
  have "uint b < 2 ^ 32" using uint_byte(1) [of b] by simp
  then have u: "uint (ucast b :: 32 word) = uint b"
    by (simp add: unsigned_ucast_eq take_bit_int_eq_self)
  have "uint (ucast b AND 255 :: 32 word) = uint b"
    by (simp add: unsigned_and_eq u int_and_255 uint_byte)
  moreover have "uint (push_bit 8 v) = push_bit 8 (uint v)"
  proof -
    have "uint (push_bit 8 v) = take_bit 32 (push_bit 8 (uint v))"
      by (simp add: unsigned_push_bit_eq)
    moreover have "push_bit 8 (uint v) = uint v * 256" by (simp add: push_bit_eq_mult)
    moreover have "0 \<le> uint v * 256" "uint v * 256 < 2 ^ 32" using assms by simp_all
    ultimately show ?thesis by (simp add: take_bit_int_eq_self)
  qed
  ultimately show ?thesis
    by (simp add: unsigned_or_eq int_or_add uint_byte)
qed

lemma parseUInt_loop_small:
  "uint v < 2 ^ (8 * k) \<Longrightarrow> k + n \<le> 3 \<Longrightarrow> pos + n \<le> length buf \<Longrightarrow>
   uint (parseUInt_loop buf pos n v)
     = foldl (\<lambda>a b. a * 256 + uint b) (uint v) (take n (drop pos buf))
   \<and> uint (parseUInt_loop buf pos n v) < 2 ^ (8 * (k + n))"
proof (induction n arbitrary: v k pos)
  case 0
  then show ?case by simp
next
  case (Suc n)
  let ?b = "buf ! pos"
  let ?v = "push_bit 8 v OR (toInt32 (getByte buf pos) AND 255)"
  from Suc.prems have inb: "pos < length buf" by simp
  have "(2::int) ^ (8 * k) \<le> 2 ^ 24"
    using Suc.prems(2) by (intro power_increasing) simp_all
  with Suc.prems(1) have small: "uint v < 2 ^ 24" by simp
  have step: "uint ?v = uint v * 256 + uint ?b"
    using byte_step [OF small, of ?b] inb by (simp add: getByte_def toInt32_def)
  have "uint v * 256 + uint ?b < 2 ^ (8 * k) * 256"
    using Suc.prems(1) uint_byte [of ?b] by simp
  then have bound: "uint ?v < 2 ^ (8 * (k + 1))"
    using step by (simp add: power_add)
  have d: "take (Suc n) (drop pos buf) = ?b # take n (drop (Suc pos) buf)"
    using inb by (simp add: Cons_nth_drop_Suc [symmetric])
  have "uint (parseUInt_loop buf (Suc pos) n ?v)
          = foldl (\<lambda>a b. a * 256 + uint b) (uint ?v) (take n (drop (Suc pos) buf))
        \<and> uint (parseUInt_loop buf (Suc pos) n ?v) < 2 ^ (8 * (k + 1 + n))"
    using Suc.IH [OF bound, where pos = "Suc pos"] Suc.prems by simp
  then show ?case by (simp add: d step)
qed

lemma parseUInt_up_to_three_bytes:
  assumes "1 \<le> sz" and "sz \<le> 3" and "start + nat sz \<le> length buf"
  shows "parseUInt buf start sz
           = STATUS_OK (NumResult sz (bigEndian (take (nat sz) (drop start buf))))"
proof -
  have l: "uint (parseUInt_loop buf start (nat sz) 0)
             = bigEndian (take (nat sz) (drop start buf))
           \<and> uint (parseUInt_loop buf start (nat sz) 0) < 2 ^ (8 * (0 + nat sz))"
  proof -
    have "nat sz \<le> 3" using assms by simp
    then show ?thesis
      using parseUInt_loop_small [of 0 0 "nat sz" start buf] assms(3)
      by (simp add: bigEndian_def)
  qed
  have "(2::int) ^ (8 * nat sz) \<le> 2 ^ 24"
    using assms by (intro power_increasing) simp_all
  with l have "uint (parseUInt_loop buf start (nat sz) 0) < 2 ^ 31" by simp
  then have "sint (parseUInt_loop buf start (nat sz) 0) = uint (parseUInt_loop buf start (nat sz) 0)"
    using signed_take_bit_int_eq_self [of 31 "uint (parseUInt_loop buf start (nat sz) 0)"]
      uint_ge_0 [of "parseUInt_loop buf start (nat sz) 0"]
    by (simp add: sint_uint)
  with l assms show ?thesis by (simp add: parseUInt_def)
qed

text \<open>
  C7.  The value is built with \<open><<=\<close> and \<open>|=\<close>, which JavaScript evaluates on
  signed 32-bit integers.  Four bytes with the top bit set give a negative number, and
  of five to eight bytes only the last four count: \<open>80 00 00 00\<close> is read as
  \<open>-2147483648\<close> and \<open>01 00 00 00 00\<close> as 0, where the big-endian unsigned values
  are 2147483648 and 4294967296.
\<close>

theorem parseUInt_wraps_at_32_bits:
  "parseUInt [0x80, 0, 0, 0] 0 4 = STATUS_OK (NumResult 4 (- 2147483648))
   \<and> parseUInt [0x01, 0, 0, 0, 0] 0 5 = STATUS_OK (NumResult 5 0)"
  by code_simp

section \<open>Properties: squishCues\<close>

lemma squishLoop_dropAliased_from:
  "i < length cs \<Longrightarrow>
   squishLoop i cs = take (Suc i) cs @ dropAliased (Some (cueOffset (cs ! i))) (drop (Suc i) cs)"
proof (induction i cs rule: squishLoop.induct)
  case (1 i cs)
  show ?case
  proof (cases "i + 1 < length cs")
    case False
    with "1.prems" show ?thesis by (simp add: squishLoop.simps [of i cs])
  next
    case True
    then have d: "drop (Suc i) cs = cs ! (i + 1) # drop (i + 2) cs"
      by (simp add: Cons_nth_drop_Suc)
    show ?thesis
    proof (cases "cueClusterPos (trackPosition (cs ! i)) = cueClusterPos (trackPosition (cs ! (i + 1)))")
      case eq: True
      let ?cs' = "take (i + 1) cs @ drop (i + 2) cs"
      have len: "i < length ?cs'" using True by simp
      have nth: "?cs' ! i = cs ! i" using True by (simp add: nth_append)
      have tk: "take (Suc i) ?cs' = take (Suc i) cs" using True by simp
      have dr: "drop (Suc i) ?cs' = drop (i + 2) cs" using True by simp
      have "squishLoop i cs = squishLoop i ?cs'"
        using True eq by (simp add: squishLoop.simps [of i cs])
      also have "\<dots> = take (Suc i) ?cs' @ dropAliased (Some (cueOffset (?cs' ! i))) (drop (Suc i) ?cs')"
        using "1.IH"(1) [OF True eq len] .
      finally show ?thesis using eq by (simp only: nth tk dr d) (simp add: cueOffset_def)
    next
      case ne: False
      have "squishLoop i cs = squishLoop (i + 1) cs"
        using True ne by (simp add: squishLoop.simps [of i cs])
      also have "\<dots> = take (Suc (i + 1)) cs @ dropAliased (Some (cueOffset (cs ! (i + 1)))) (drop (Suc (i + 1)) cs)"
        using "1.IH"(2) [OF True ne True] .
      finally show ?thesis using ne True
        by (simp add: d cueOffset_def take_Suc_conv_app_nth)
    qed
  qed
qed

lemma squishLoop_eq_dropAliased: "squishLoop 0 cs = dropAliased None cs"
proof (cases cs)
  case Nil
  then show ?thesis by (simp add: squishLoop.simps [of 0 "[]"])
next
  case (Cons c cs')
  then show ?thesis using squishLoop_dropAliased_from [of 0 cs] by simp
qed

lemma dropAliased_hd:
  "dropAliased prev cs = x # xs \<Longrightarrow> prev \<noteq> Some (cueOffset x)"
  by (induction cs arbitrary: prev) (auto split: if_splits)

lemma dropAliased_distinct_adj: "distinct_adj (map cueOffset (dropAliased prev cs))"
proof (induction cs arbitrary: prev)
  case Nil
  then show ?case by simp
next
  case (Cons c cs)
  show ?case
  proof (cases "prev = Some (cueOffset c)")
    case True
    then show ?thesis using Cons.IH by simp
  next
    case False
    show ?thesis
    proof (cases "dropAliased (Some (cueOffset c)) cs")
      case Nil
      then show ?thesis using False by simp
    next
      case (Cons x xs)
      then have "cueOffset x \<noteq> cueOffset c" using dropAliased_hd by fastforce
      moreover have "distinct_adj (map cueOffset (x # xs))"
        using Cons.IH [of "Some (cueOffset c)"] Cons by simp
      ultimately show ?thesis using False Cons by (simp add: distinct_adj_Cons)
    qed
  qed
qed

lemma dropAliased_id:
  "distinct_adj (map cueOffset cs) \<Longrightarrow> (cs \<noteq> [] \<Longrightarrow> prev \<noteq> Some (cueOffset (hd cs)))
   \<Longrightarrow> dropAliased prev cs = cs"
proof (induction cs arbitrary: prev)
  case Nil
  then show ?case by simp
next
  case (Cons c cs)
  then show ?case by (cases cs) (auto simp: distinct_adj_Cons)
qed

lemma dropAliased_idem: "dropAliased None (dropAliased None cs) = dropAliased None cs"
  by (rule dropAliased_id) (simp_all add: dropAliased_distinct_adj)

lemma dropAliased_subset: "set (dropAliased prev cs) \<subseteq> set cs"
  by (induction cs arbitrary: prev) auto

lemma dropAliased_sorted:
  "sorted (map f cs) \<Longrightarrow> sorted (map (f :: cue_point \<Rightarrow> 'a :: linorder) (dropAliased prev cs))"
proof (induction cs arbitrary: prev)
  case Nil
  then show ?case by simp
next
  case (Cons c cs)
  then show ?case using dropAliased_subset by (auto, blast)
qed

lemma sorted_distinct_adj_distinct:
  "sorted (xs :: int list) \<Longrightarrow> distinct_adj xs \<Longrightarrow> distinct xs"
proof (induction xs)
  case Nil
  then show ?case by simp
next
  case (Cons x xs)
  show ?case
  proof (cases xs)
    case Nil
    then show ?thesis by simp
  next
    case (Cons y ys)
    from Cons.prems Cons have "x < y" "\<forall>z \<in> set xs. y \<le> z"
      by (auto simp: distinct_adj_Cons)
    then have "x \<notin> set xs" by auto
    then show ?thesis using Cons.IH Cons.prems Cons by (simp add: distinct_adj_Cons)
  qed
qed

text \<open>
  C2 (as the code has it).  On a parser with a cue list, \<open>squishCues\<close> succeeds and
  leaves exactly the specification's squish of the list: it removes exactly the cue points
  whose offset equals that of the cue point retained last before them.  Applying it again
  changes nothing.  In the result no two neighbours share an offset.  If the offsets of
  the input are in non-decreasing order, all offsets of the result are distinct; if the
  input is in time order, so is the result.
\<close>

theorem squishCues_squish:
  assumes "cues p = Some cs"
  shows "squishCues p = (STATUS_OK True, p\<lparr>cues := Some (dropAliased None cs)\<rparr>)
         \<and> squishCues (snd (squishCues p)) = squishCues p
         \<and> distinct_adj (map cueOffset (dropAliased None cs))
         \<and> (sorted (map cueOffset cs) \<longrightarrow> distinct (map cueOffset (dropAliased None cs)))
         \<and> (sorted (map cueTime cs) \<longrightarrow> sorted (map cueTime (dropAliased None cs)))"
proof -
  have first: "squishCues p = (STATUS_OK True, p\<lparr>cues := Some (dropAliased None cs)\<rparr>)"
    using assms by (simp add: squishCues_def squishLoop_eq_dropAliased)
  have again: "squishCues (snd (squishCues p)) = squishCues p"
    by (simp add: first) (simp add: squishCues_def squishLoop_eq_dropAliased dropAliased_idem)
  have uniq: "distinct (map cueOffset (dropAliased None cs))" if "sorted (map cueOffset cs)"
    using that by (intro sorted_distinct_adj_distinct dropAliased_sorted dropAliased_distinct_adj)
  have timed: "sorted (map cueTime (dropAliased None cs))" if "sorted (map cueTime cs)"
    using that by (rule dropAliased_sorted)
  from first again uniq timed show ?thesis
    by (simp add: dropAliased_distinct_adj)
qed

theorem squishCues_squish_witness:
  "squishCues (parserWith [cueAt 0 100, cueAt 0 100, cueAt 1 250, cueAt 2 400])
     = (STATUS_OK True, parserWith [cueAt 0 100, cueAt 1 250, cueAt 2 400])
   \<and> distinct (map cueOffset [cueAt 0 100, cueAt 1 250, cueAt 2 400])
   \<and> sorted (map cueTime [cueAt 0 100, cueAt 1 250, cueAt 2 400])"
proof -
  let ?cs = "[cueAt 0 100, cueAt 0 100, cueAt 1 250, cueAt 2 400]"
  have c: "cues (parserWith ?cs) = Some ?cs" by (simp add: parserWith_def)
  have so: "sorted (map cueOffset ?cs)" by (simp add: cueOffset_def cueAt_def)
  have st: "sorted (map cueTime ?cs)" by (simp add: cueAt_def)
  have d: "dropAliased None ?cs = [cueAt 0 100, cueAt 1 250, cueAt 2 400]"
    by (simp add: cueOffset_def cueAt_def)
  show ?thesis
    using squishCues_squish [OF c] so st unfolding d by (simp add: parserWith_def)
qed

text \<open>
  C2 as stated fails for a cue list whose offsets are not in order: the time-ordered
  list with offsets 100, 200, 100 has no two equal neighbours, so nothing is removed and
  the offset 100 survives twice.
\<close>

theorem squishCues_unique_counterexample:
  "squishCues (parserWith [cueAt 0 100, cueAt 1 200, cueAt 2 100])
     = (STATUS_OK True, parserWith [cueAt 0 100, cueAt 1 200, cueAt 2 100])
   \<and> sorted (map cueTime [cueAt 0 100, cueAt 1 200, cueAt 2 100])
   \<and> \<not> distinct (map cueOffset [cueAt 0 100, cueAt 1 200, cueAt 2 100])"
  by (simp add: squishCues_def parserWith_def squishLoop.simps cueAt_def cueOffset_def)

section \<open>Properties: cue descriptors\<close>

lemma findCueEnd_first:
  "k \<le> j \<Longrightarrow> j < length cs \<Longrightarrow> cueOffset (cs ! j) \<noteq> off
   \<Longrightarrow> (\<forall>m. k \<le> m \<and> m < j \<longrightarrow> cueOffset (cs ! m) = off)
   \<Longrightarrow> findCueEnd cs off k = j"
proof (induction cs off k rule: findCueEnd.induct)
  case (1 cs off k)
  show ?case
  proof (cases "k = j")
    case True
    with "1.prems" show ?thesis
      by (subst findCueEnd.simps) (simp add: cueOffset_def)
  next
    case False
    with "1.prems" have lt: "k < j" by simp
    with "1.prems" have here: "k < length cs \<and> off = cueClusterPos (trackPosition (cs ! k))"
      by (auto simp: cueOffset_def)
    have "findCueEnd cs off (Suc k) = j"
      using "1.IH" [OF here] "1.prems" lt by simp
    with here show ?thesis by (subst findCueEnd.simps) simp
  qed
qed

lemma findCueEnd_none:
  "(\<forall>m. k \<le> m \<and> m < length cs \<longrightarrow> cueOffset (cs ! m) = off)
   \<Longrightarrow> \<not> findCueEnd cs off k < length cs"
proof (induction cs off k rule: findCueEnd.induct)
  case (1 cs off k)
  show ?case
  proof (cases "k < length cs")
    case False
    then show ?thesis by (subst findCueEnd.simps) simp
  next
    case True
    with "1.prems" have here: "k < length cs \<and> off = cueClusterPos (trackPosition (cs ! k))"
      by (auto simp: cueOffset_def)
    have "\<not> findCueEnd cs off (Suc k) < length cs"
      using "1.IH" [OF here] "1.prems" by simp
    with here show ?thesis by (subst findCueEnd.simps) simp
  qed
qed

text \<open>
  C3 (as the code has it).  For a valid index \<open>i\<close>, with \<open>j\<close> the first index
  after \<open>i\<close> whose offset differs, the descriptor has size
  \<open>cue[j].offset - cue[i].offset\<close> and end time \<open>cue[j].time\<close>.  When there is no
  such \<open>j\<close>, the size is the Cues element's offset minus \<open>cue[i].offset\<close> if the
  seek head has a Cues offset greater than \<open>cue[i].offset\<close>, and \<open>-1\<close> otherwise,
  whatever the duration; the end time is the parser's duration, which is \<open>-1\<close> while
  unknown.  For the offsets 100, 250, 400 and the Cues element at 500 the sizes are 150,
  150 and 100.
\<close>

theorem getCueDescFromCue_descriptor:
  assumes "cues p = Some cs" and "i < length cs"
  shows "(i < j \<and> j < length cs \<and> cueOffset (cs ! j) \<noteq> cueOffset (cs ! i)
            \<and> (\<forall>k. i < k \<and> k < j \<longrightarrow> cueOffset (cs ! k) = cueOffset (cs ! i))
          \<longrightarrow> getCueDescFromCue p i =
                STATUS_OK \<lparr>cdTime = cueTime (cs ! i), cdOffset = cueOffset (cs ! i),
                  cdSize = cueOffset (cs ! j) - cueOffset (cs ! i),
                  cdEndTime = cueTime (cs ! j)\<rparr>)
         \<and> ((\<forall>k. i < k \<and> k < length cs \<longrightarrow> cueOffset (cs ! k) = cueOffset (cs ! i))
          \<longrightarrow> getCueDescFromCue p i =
                STATUS_OK \<lparr>cdTime = cueTime (cs ! i), cdOffset = cueOffset (cs ! i),
                  cdSize =
                    (case seekHead p of
                       None \<Rightarrow> - 1
                     | Some sh \<Rightarrow>
                         (case sh ''CUES'' of
                            None \<Rightarrow> - 1
                          | Some c \<Rightarrow>
                              if c > cueOffset (cs ! i) then c - cueOffset (cs ! i) else - 1)),
                  cdEndTime = duration p\<rparr>)
         \<and> map (\<lambda>n. map_status cdSize
                  (getCueDescFromCue
                     (indexedParser [cueAt t0 100, cueAt t1 250, cueAt t2 400] 500 d) n))
               [0, 1, 2]
             = [STATUS_OK 150, STATUS_OK 150, STATUS_OK 100]"
proof -
  have a: "getCueDescFromCue p i =
             STATUS_OK \<lparr>cdTime = cueTime (cs ! i), cdOffset = cueOffset (cs ! i),
               cdSize = cueOffset (cs ! j) - cueOffset (cs ! i), cdEndTime = cueTime (cs ! j)\<rparr>"
    if "i < j" "j < length cs" "cueOffset (cs ! j) \<noteq> cueOffset (cs ! i)"
       "\<forall>k. i < k \<and> k < j \<longrightarrow> cueOffset (cs ! k) = cueOffset (cs ! i)" for j
  proof -
    have "findCueEnd cs (cueOffset (cs ! i)) (i + 1) = j"
      using that by (intro findCueEnd_first) auto
    then show ?thesis using assms that(2)
      by (auto simp: getCueDescFromCue_def getCues_def Let_def cueOffset_def)
  qed
  have b: "getCueDescFromCue p i =
             STATUS_OK \<lparr>cdTime = cueTime (cs ! i), cdOffset = cueOffset (cs ! i),
               cdSize =
                 (case seekHead p of
                    None \<Rightarrow> - 1
                  | Some sh \<Rightarrow>
                      (case sh ''CUES'' of
                         None \<Rightarrow> - 1
                       | Some c \<Rightarrow>
                           if c > cueOffset (cs ! i) then c - cueOffset (cs ! i) else - 1)),
               cdEndTime = duration p\<rparr>"
    if "\<forall>k. i < k \<and> k < length cs \<longrightarrow> cueOffset (cs ! k) = cueOffset (cs ! i)"
  proof -
    have "\<not> findCueEnd cs (cueOffset (cs ! i)) (i + 1) < length cs"
      using that by (intro findCueEnd_none) auto
    then show ?thesis using assms
      by (auto simp: getCueDescFromCue_def getCues_def Let_def cueOffset_def
          split: option.splits)
  qed
  have c: "map (\<lambda>n. map_status cdSize
                  (getCueDescFromCue
                     (indexedParser [cueAt t0 100, cueAt t1 250, cueAt t2 400] 500 d) n))
               [0, 1, 2]
             = [STATUS_OK 150, STATUS_OK 150, STATUS_OK 100]"
    by (simp add: getCueDescFromCue_def getCues_def indexedParser_def newWebMParser_def
        cueAt_def findCueEnd.simps)
  from a b c show ?thesis by blast
qed

theorem getCueDescFromCue_descriptor_witness:
  "getCueDescFromCue (indexedParser [cueAt 0 100, cueAt 0 100, cueAt 5 250] 500 9) 0
     = STATUS_OK \<lparr>cdTime = 0, cdOffset = 100, cdSize = 150, cdEndTime = 5\<rparr>
   \<and> getCueDescFromCue (indexedParser [cueAt 0 100, cueAt 0 100, cueAt 5 250] 500 9) 2
     = STATUS_OK \<lparr>cdTime = 5, cdOffset = 250, cdSize = 250, cdEndTime = 9\<rparr>"
proof -
  let ?cs = "[cueAt 0 100, cueAt 0 100, cueAt 5 250]"
  let ?p = "indexedParser ?cs 500 9"
  have c: "cues ?p = Some ?cs" by (simp add: indexedParser_def)
  have h1: "0 < (2::nat) \<and> 2 < length ?cs \<and> cueOffset (?cs ! 2) \<noteq> cueOffset (?cs ! 0)
            \<and> (\<forall>k. 0 < k \<and> k < 2 \<longrightarrow> cueOffset (?cs ! k) = cueOffset (?cs ! 0))"
    by (auto simp: cueOffset_def cueAt_def nth_Cons split: nat.splits)
  have h2: "\<forall>k. 2 < k \<and> k < length ?cs \<longrightarrow> cueOffset (?cs ! k) = cueOffset (?cs ! 2)"
    by simp
  have "getCueDescFromCue ?p 0
          = STATUS_OK \<lparr>cdTime = 0, cdOffset = 100, cdSize = 150, cdEndTime = 5\<rparr>"
    using getCueDescFromCue_descriptor [OF c, of 0 2] h1
    by (simp add: cueOffset_def cueAt_def)
  moreover have "getCueDescFromCue ?p 2
          = STATUS_OK \<lparr>cdTime = 5, cdOffset = 250, cdSize = 250, cdEndTime = 9\<rparr>"
    using getCueDescFromCue_descriptor [OF c, of 2] h2
    by (simp add: cueOffset_def cueAt_def indexedParser_def)
  ultimately show ?thesis by simp
qed

text \<open>
  C3 as stated fails on the last cue.  With the duration unknown (\<open>-1\<close>) the size is
  still computed from the Cues element's offset (400, not \<open>-1\<close>); and with a Cues
  element that lies before the cluster (offset 50) the size is \<open>-1\<close>, not
  \<open>50 - 100\<close>, although the duration is known.
\<close>

theorem getCueDescFromCue_last_counterexample:
  "getCueDescFromCue (indexedParser [cueAt 0 100] 500 (- 1)) 0
     = STATUS_OK \<lparr>cdTime = 0, cdOffset = 100, cdSize = 400, cdEndTime = - 1\<rparr>
   \<and> getCueDescFromCue (indexedParser [cueAt 0 100] 50 10) 0
     = STATUS_OK \<lparr>cdTime = 0, cdOffset = 100, cdSize = - 1, cdEndTime = 10\<rparr>"
  by (simp add: getCueDescFromCue_def getCues_def indexedParser_def newWebMParser_def
      cueAt_def findCueEnd.simps)

section \<open>Properties: canSeek and the segment offset\<close>

text \<open>
  C8 (as the code has it).  \<open>canSeek\<close> is true exactly when the parser object exists
  and its cue table is not \<open>null\<close>; the length of the table is not looked at.
\<close>

theorem canSeek_iff_cues_parsed:
  "(WebMFileParser_canSeek f \<longleftrightarrow> (\<exists>p. parser f = Some p \<and> cues p \<noteq> None))
   \<and> (truthy (AdaptiveWebMFile_canSeek a)
        \<longleftrightarrow> (\<exists>fp p. fileParser a = Some fp \<and> parser fp = Some p \<and> cues p \<noteq> None))"
  by (auto simp: WebMFileParser_canSeek_def AdaptiveWebMFile_canSeek_def truthy_def getCues_def
      split: option.splits)

text \<open>
  C8 as stated fails for a parsed Cues element without cue points: the table is the empty
  array, which is not \<open>null\<close>, and \<open>canSeek\<close> is true.
\<close>

theorem canSeek_empty_cues_counterexample:
  "cues (parserWith []) = Some []
   \<and> WebMFileParser_canSeek \<lparr>parser = Some (parserWith [])\<rparr>
   \<and> AdaptiveWebMFile_canSeek \<lparr>fileParser = Some \<lparr>parser = Some (parserWith [])\<rparr>\<rparr> = Some True"
  by (simp add: WebMFileParser_canSeek_def AdaptiveWebMFile_canSeek_def getCues_def parserWith_def)

lemma segmentBuf_header:
  "parseElementHeader segmentBuf 0 6 = STATUS_OK (ElementHeader 5 (Some 0x18538067) (Some 1))"
  unfolding segmentBuf_def by code_simp

text \<open>
  C9 (as the code has it).  \<open>parseSegmentHeaders\<close> assigns the segment offset only
  while it is still \<open>-1\<close>, to the position after the Segment element's header, and
  only when that header was read; once set, no parse changes it.
  \<open>setSegmentOffset\<close> replaces it by any offset greater than 0, set or not, and leaves
  it alone otherwise.  \<open>squishCues\<close> and \<open>setDuration\<close> do not touch it.
\<close>

theorem segmentOffset_assignment:
  "segmentOffset (snd (parseSegmentHeaders parseList p buf start sz bufOffset)) =
     (case parseElementHeader buf start sz of
        STATUS_OK hdr \<Rightarrow>
          if hdrId hdr = Some 0x18538067 \<and> segmentOffset p = - 1
          then int start + hdrBytesUsed hdr else segmentOffset p
      | STATUS_INVALID_DATA \<Rightarrow> segmentOffset p
      | STATUS_NEED_MORE_DATA n \<Rightarrow> segmentOffset p)
   \<and> (segmentOffset p \<noteq> - 1 \<longrightarrow>
        segmentOffset (snd (parseSegmentHeaders parseList p buf start sz bufOffset))
          = segmentOffset p)
   \<and> segmentOffset (setSegmentOffset p off) = (if off > 0 then off else segmentOffset p)
   \<and> segmentOffset (snd (squishCues p)) = segmentOffset p
   \<and> segmentOffset (setDuration p d) = segmentOffset p"
  by (auto simp: parseSegmentHeaders_def setSegmentOffset_def squishCues_def setDuration_def
      Let_def split: status.splits option.splits)

theorem segmentOffset_assignment_witness:
  "segmentOffset (snd (parseSegmentHeaders noChildren newWebMParser segmentBuf 0 6 0)) = 5
   \<and> segmentOffset (snd (parseSegmentHeaders noChildren
        (snd (parseSegmentHeaders noChildren newWebMParser segmentBuf 0 6 0))
        ([0xEC, 0x80] @ segmentBuf) 2 6 0)) = 5"
proof -
  let ?p1 = "snd (parseSegmentHeaders noChildren newWebMParser segmentBuf 0 6 0)"
  have s1: "segmentOffset ?p1 = 5"
    using segmentOffset_assignment [of noChildren newWebMParser segmentBuf 0 6 0]
    by (simp add: segmentBuf_header newWebMParser_def)
  then have set: "segmentOffset ?p1 \<noteq> - 1" by simp
  have "segmentOffset (snd (parseSegmentHeaders noChildren ?p1 ([0xEC, 0x80] @ segmentBuf) 2 6 0))
          = segmentOffset ?p1"
    using segmentOffset_assignment [of noChildren ?p1 "[0xEC, 0x80] @ segmentBuf" 2 6 0,
        THEN conjunct2, THEN conjunct1] set
    by (rule mp)
  then have "segmentOffset (snd (parseSegmentHeaders noChildren ?p1 ([0xEC, 0x80] @ segmentBuf) 2 6 0)) = 5"
    using s1 by simp
  with s1 show ?thesis by simp
qed

text \<open>
  C9 as stated fails for a later \<open>setSegmentOffset\<close>: after the first parse has set
  the offset to 5, \<open>setSegmentOffset(48)\<close> overwrites it.
\<close>

theorem setSegmentOffset_overwrites_counterexample:
  "segmentOffset (snd (parseSegmentHeaders noChildren newWebMParser segmentBuf 0 6 0)) = 5
   \<and> segmentOffset (setSegmentOffset
        (snd (parseSegmentHeaders noChildren newWebMParser segmentBuf 0 6 0)) 48) = 48"
  by (simp add: parseSegmentHeaders_def segmentBuf_header newWebMParser_def noChildren_def
      setSegmentOffset_def)

section \<open>Properties: AdaptiveWebMStream\<close>

text \<open>
  The queues stay in step: \<open>resetStreamData\<close> empties both, \<open>front\<close> and
  \<open>checkFront\<close> shift both or neither.
\<close>

lemma lockstep_resetStreamData: "lockstep (resetStreamData s)"
  by (simp add: lockstep_def resetStreamData_def)

lemma lockstep_checkFront: "lockstep s \<Longrightarrow> lockstep (snd (checkFront s t))"
  by (cases "clusterQueue s"; cases "cueDescQueue s")
     (auto simp: lockstep_def checkFront_def)

lemma lockstep_front: "lockstep s \<Longrightarrow> lockstep (snd (front s))"
  by (cases "clusterQueue s"; cases "cueDescQueue s")
     (auto simp: lockstep_def front_def)

text \<open>
  C10.  The player changes the two queues of a stream only together, so they have the
  same length (\<open>lockstep\<close>; the lemmas above and below show that every modelled
  operation keeps it).  On such a stream \<open>front\<close> with an empty cluster queue returns
  \<open>null\<close> and changes nothing, and with a non-empty one it returns the first cluster,
  removes the first entry of both queues and sets \<open>lastTimeSent_\<close> to the end time of
  the removed cueDesc.
\<close>

theorem front_pops_in_lockstep:
  assumes "lockstep s"
  shows "(clusterQueue s = [] \<longrightarrow> front s = (Normal None, s))
         \<and> (clusterQueue s \<noteq> [] \<longrightarrow>
              front s =
                (Normal (Some (hd (clusterQueue s))),
                 s\<lparr>lastTimeSent := cdEndTime (hd (cueDescQueue s)),
                   clusterQueue := tl (clusterQueue s),
                   cueDescQueue := tl (cueDescQueue s)\<rparr>))
         \<and> lockstep (snd (front s))"
  using assms
  by (cases "clusterQueue s"; cases "cueDescQueue s")
     (auto simp: lockstep_def front_def)

theorem front_pops_in_lockstep_witness:
  "front newStream = (Normal None, newStream)
   \<and> front (newStream\<lparr>clusterQueue := [[1, 2], [3]],
              cueDescQueue := [\<lparr>cdTime = 0, cdOffset = 100, cdSize = 2, cdEndTime = 5\<rparr>,
                               \<lparr>cdTime = 5, cdOffset = 102, cdSize = 1, cdEndTime = 9\<rparr>]\<rparr>)
     = (Normal (Some [1, 2]),
        newStream\<lparr>clusterQueue := [[3]],
              cueDescQueue := [\<lparr>cdTime = 5, cdOffset = 102, cdSize = 1, cdEndTime = 9\<rparr>],
              lastTimeSent := 5\<rparr>)"
proof -
  let ?s = "newStream\<lparr>clusterQueue := [[1, 2], [3]],
              cueDescQueue := [\<lparr>cdTime = 0, cdOffset = 100, cdSize = 2, cdEndTime = 5\<rparr>,
                               \<lparr>cdTime = 5, cdOffset = 102, cdSize = 1, cdEndTime = 9\<rparr>]\<rparr>"
  have l0: "lockstep newStream" by (simp add: lockstep_def newStream_def)
  have l1: "lockstep ?s" by (simp add: lockstep_def)
  have "front newStream = (Normal None, newStream)"
    using front_pops_in_lockstep [OF l0] by (simp add: newStream_def)
  moreover have "front ?s = (Normal (Some [1, 2]),
        newStream\<lparr>clusterQueue := [[3]],
              cueDescQueue := [\<lparr>cdTime = 5, cdOffset = 102, cdSize = 1, cdEndTime = 9\<rparr>],
              lastTimeSent := 5\<rparr>)"
    using front_pops_in_lockstep [OF l1] by (simp add: newStream_def)
  ultimately show ?thesis by simp
qed

section \<open>Properties: DashPlayer\<close>

lemma appendIfData_sinkCalls:
  "sinkCalls (appendIfData p d) =
     sinkCalls p @ (case d of
                      None \<Rightarrow> []
                    | Some x \<Rightarrow> if state p = LOADING then [SourceAppend x] else [])"
  by (simp add: appendIfData_def appendData_def split: option.splits)

lemma appendIfData_fields:
  "video (appendIfData p d) = video p" "audio (appendIfData p d) = audio p"
  "state (appendIfData p d) = state p"
  by (simp_all add: appendIfData_def appendData_def split: option.splits)

text \<open>
  The download callbacks push onto both queues together, and the send functions shift
  them through \<open>front\<close> and \<open>checkFront\<close>: a player whose streams are in step
  stays so, provided the bitrate switch keeps them in step.
\<close>

lemma playerLockstep_frame:
  "playerLockstep (setTimeout p t) = playerLockstep p"
  "playerLockstep (reportParseError p) = playerLockstep p"
  "playerLockstep (notifyChunkDownload p s) = playerLockstep p"
  "playerLockstep (endOfStream p) = playerLockstep p"
  "playerLockstep (appendIfData p d) = playerLockstep p"
  "playerLockstep (p\<lparr>fetches := f\<rparr>) = playerLockstep p"
  by (simp_all add: playerLockstep_def setTimeout_def reportParseError_def changeState_def
      notifyChunkDownload_def endOfStream_def appendIfData_fields Let_def)

lemma playerLockstep_issueFetches: "playerLockstep p \<Longrightarrow> playerLockstep (issueFetches mk p)"
  by (auto simp: playerLockstep_def issueFetches_def lockstep_def Let_def split: option.splits)

lemma playerLockstep_putStream:
  "playerLockstep p \<Longrightarrow> lockstep s \<Longrightarrow> playerLockstep (putStream p st s)"
  by (auto simp: playerLockstep_def putStream_def split: stream_type.splits option.splits)

lemma playerLockstep_getStream:
  "playerLockstep p \<Longrightarrow> getStream p st = Some s \<Longrightarrow> lockstep s"
  by (auto simp: playerLockstep_def getStream_def split: stream_type.splits option.splits)

lemma playerLockstep_putStream_simp:
  "playerLockstep p \<Longrightarrow> lockstep s \<Longrightarrow> playerLockstep (putStream p st s) = True"
  using playerLockstep_putStream by simp

lemma playerLockstep_onClusterDownloadedDesc:
  assumes "playerLockstep p" and "\<And>q. playerLockstep q \<Longrightarrow> playerLockstep (chk q)"
  shows "playerLockstep (snd (onClusterDownloadedDesc chk p st nextCueDesc seqNum buf))"
proof (cases "getStream p st")
  case None
  then show ?thesis using assms(1) by (simp add: onClusterDownloadedDesc_def)
next
  case (Some stream)
  then have ls: "lockstep stream" using assms(1) playerLockstep_getStream by blast
  have chk: "playerLockstep (chk q) = True" if "playerLockstep q" for q
    using assms(2) that by simp
  show ?thesis
    using Some assms(1) ls [unfolded lockstep_def]
    by (simp add: onClusterDownloadedDesc_def Let_def playerLockstep_frame
        lockstep_def playerLockstep_putStream_simp chk
        split: option.splits)
qed

lemma playerLockstep_onPartialCueDescDownload:
  assumes "playerLockstep p" and "\<And>q. playerLockstep q \<Longrightarrow> playerLockstep (chk q)"
  shows "playerLockstep (snd (onPartialCueDescDownload chk p st nextCueDesc seqNum buf))"
proof (cases "getStream p st")
  case None
  then show ?thesis using assms(1) by (simp add: onPartialCueDescDownload_def)
next
  case (Some stream)
  then have ls: "lockstep stream" using assms(1) playerLockstep_getStream by blast
  have chk: "playerLockstep (chk q) = True" if "playerLockstep q" for q
    using assms(2) that by simp
  have fet: "playerLockstep (issueFetches mk q) = True" if "playerLockstep q" for q mk
    using playerLockstep_issueFetches that by simp
  show ?thesis
    using Some assms(1) ls [unfolded lockstep_def]
    by (simp add: onPartialCueDescDownload_def Let_def playerLockstep_frame
        fetchPartialClusters_def lockstep_def playerLockstep_putStream_simp
        chk fet split: option.splits)
qed

lemma playerLockstep_sendAudio:
  assumes "playerLockstep p"
  shows "playerLockstep (snd (sendAudio u p))"
proof (cases "audio p")
  case None
  then show ?thesis using assms by (simp add: sendAudio_def)
next
  case (Some aud)
  then have la: "lockstep aud" using assms by (simp add: playerLockstep_def)
  obtain r aud' where f: "(if u then front aud else checkFront aud (lastTimeSent (video p))) = (r, aud')"
    by (cases "if u then front aud else checkFront aud (lastTimeSent (video p))")
  have "lockstep aud'"
    using lockstep_front [OF la] lockstep_checkFront [OF la, of "lastTimeSent (video p)"] f
    by (cases u) simp_all
  then have "playerLockstep (p\<lparr>audio := Some aud'\<rparr>)"
    using assms by (simp add: playerLockstep_def)
  then show ?thesis using Some f assms
    by (cases r) (simp_all add: sendAudio_def playerLockstep_frame)
qed

lemma playerLockstep_sendVideoFront:
  assumes "playerLockstep p"
  shows "playerLockstep (snd (sendVideoFront p))"
proof -
  obtain r vid' where f: "front (video p) = (r, vid')" by (cases "front (video p)")
  have "lockstep vid'" using lockstep_front [of "video p"] assms f
    by (simp add: playerLockstep_def)
  then have "playerLockstep (p\<lparr>video := vid'\<rparr>)"
    using assms by (simp add: playerLockstep_def)
  then show ?thesis using f assms
    by (cases r) (simp_all add: sendVideoFront_def playerLockstep_frame)
qed

lemma playerLockstep_sendClusters:
  assumes "playerLockstep p"
  shows "playerLockstep (snd (sendClusters p))"
proof -
  obtain r1 p1 where a: "sendAudio False p = (r1, p1)" by (cases "sendAudio False p")
  then have l1: "playerLockstep p1" using playerLockstep_sendAudio [OF assms, of False] by simp
  obtain r2 p2 where v: "sendVideoFront p1 = (r2, p2)" by (cases "sendVideoFront p1")
  then have l2: "playerLockstep p2" using playerLockstep_sendVideoFront [OF l1] by simp
  have iss: "playerLockstep (issueFetches mk q) = True" if "playerLockstep q" for q mk
    using playerLockstep_issueFetches that by simp
  show ?thesis using a v l1 l2
    by (cases r1; cases r2)
       (simp_all add: sendClusters_def Let_def fetchMoreClusters_def playerLockstep_frame iss
          split: option.splits)
qed

lemma playerLockstep_sendPartialClusters:
  assumes "playerLockstep p"
  shows "playerLockstep (snd (sendPartialClusters p))"
proof -
  let ?u = "endOfClusters (video p) \<and> empty (video p)"
  obtain r1 p1 where a: "sendAudio ?u p = (r1, p1)" by (cases "sendAudio ?u p")
  then have l1: "playerLockstep p1" using playerLockstep_sendAudio [OF assms, of ?u] by simp
  obtain r2 p2 where v: "sendVideoFront p1 = (r2, p2)" by (cases "sendVideoFront p1")
  then have l2: "playerLockstep p2" using playerLockstep_sendVideoFront [OF l1] by simp
  show ?thesis using a v l1 l2
    by (cases r1; cases r2)
       (simp_all add: sendPartialClusters_def playerLockstep_frame split: option.splits)
qed

text \<open>
  C4.  A completion callback whose sequence number differs from the player's current
  \<open>seekSequenceNum\<close> leaves the queues of both streams as they were and hands nothing
  to the sink, in whatever state the player is and whatever the callback carries.
\<close>

theorem stale_fetch_not_queued:
  assumes "seqNum \<noteq> seekSequenceNum p"
  shows "queuedData (snd (onClusterDownloadedDesc chk p st nextCueDesc seqNum buf)) = queuedData p
         \<and> sinkCalls (snd (onClusterDownloadedDesc chk p st nextCueDesc seqNum buf)) = sinkCalls p
         \<and> queuedData (snd (onPartialCueDescDownload chk p st nextCueDesc seqNum buf)) = queuedData p
         \<and> sinkCalls (snd (onPartialCueDescDownload chk p st nextCueDesc seqNum buf)) = sinkCalls p"
  using assms
  by (auto simp: onClusterDownloadedDesc_def onPartialCueDescDownload_def queuedData_def
      queued_def getStream_def putStream_def setTimeout_def Let_def
      split: option.splits stream_type.splits)

theorem stale_fetch_not_queued_witness:
  "queuedData (snd (onClusterDownloadedDesc (\<lambda>p. p) (playerWith LOADING 2 newStream None)
       Video None 1 (Some [1, 2, 3]))) = (([], []), None)
   \<and> queuedData (snd (onPartialCueDescDownload (\<lambda>p. p) (playerWith LOADING 2 newStream None)
       Video None 1 (Some [1, 2, 3]))) = (([], []), None)
   \<and> queuedData (snd (onClusterDownloadedDesc (\<lambda>p. p) (playerWith LOADING 2 newStream None)
       Video None 2 (Some [1, 2, 3])))
     = (([[1, 2, 3]], [\<lparr>cdTime = 0, cdOffset = 0, cdSize = - 1, cdEndTime = - 1\<rparr>]), None)"
proof -
  let ?p = "playerWith LOADING 2 newStream None"
  have ne: "(1::int) \<noteq> seekSequenceNum ?p" by (simp add: playerWith_def)
  have q: "queuedData ?p = (([], []), None)"
    by (simp add: queuedData_def queued_def playerWith_def newStream_def)
  have fresh: "queuedData (snd (onClusterDownloadedDesc (\<lambda>p. p) ?p Video None 2 (Some [1, 2, 3])))
     = (([[1, 2, 3]], [\<lparr>cdTime = 0, cdOffset = 0, cdSize = - 1, cdEndTime = - 1\<rparr>]), None)"
    by (simp add: onClusterDownloadedDesc_def queuedData_def queued_def playerWith_def
        newStream_def getStream_def putStream_def setTimeout_def Let_def)
  show ?thesis
    using stale_fetch_not_queued [OF ne, of "\<lambda>p. p" Video None "Some [1, 2, 3]"] q fresh
    by simp
qed

text \<open>
  C6.  \<open>sendClusters\<close> signals the end of the stream as soon as the \<open>endOfClusters_\<close>
  flags of the active streams are set; it does not look at the queues.  On a player whose
  video has ended with last sent time 10 and whose audio has ended with a cluster that
  starts at 10.5 still queued, \<open>checkFront\<close> holds the audio cluster back and the end
  of the stream is signalled with that cluster queued.
\<close>

theorem sendClusters_signals_end_with_audio_queued:
  "fst (sendClusters audioPending) = Normal ()
   \<and> sinkCalls (snd (sendClusters audioPending)) = [SourceEndOfStream EOS_NO_ERROR]
   \<and> map_option clusterQueue (audio (snd (sendClusters audioPending))) = Some [[7]]"
  by (simp add: sendClusters_def sendAudio_def audioPending_def playerWith_def newStream_def
      queuedCue_def checkFront_def front_def sendVideoFront_def appendIfData_def endOfStream_def
      fetchMoreClusters_def issueFetches_def addNewCluster_def Let_def)

text \<open>
  \<open>sendPartialClusters\<close> tests \<open>empty()\<close> as well.  On the same player it hands
  the audio cluster over first; and in general, when it signals the end of the stream,
  every active stream is at its end of clusters with an empty queue.
\<close>

lemma sendPartialClusters_drains_audio_first:
  "sinkCalls (snd (sendPartialClusters audioPending))
     = [SourceAppend [7], SourceEndOfStream EOS_NO_ERROR]"
  by (simp add: sendPartialClusters_def sendAudio_def audioPending_def playerWith_def
      newStream_def queuedCue_def checkFront_def front_def sendVideoFront_def appendIfData_def
      appendData_def endOfStream_def empty_def setTimeout_def Let_def)

lemma sendPartialClusters_end_only_when_drained:
  assumes "sendPartialClusters p = (r, p')"
  shows "take (length (sinkCalls p)) (sinkCalls p') = sinkCalls p
         \<and> (SourceEndOfStream EOS_NO_ERROR \<in> set (drop (length (sinkCalls p)) (sinkCalls p'))
              \<longrightarrow> allDrained p')"
  using assms
  by (auto simp: sendPartialClusters_def sendAudio_def sendVideoFront_def allDrained_def
      endOfStream_def setTimeout_def appendIfData_fields appendIfData_sinkCalls
      split: option.splits prod.splits completion.splits if_splits)

section \<open>Properties: buffer projection\<close>

text \<open>
  C5.  When the accumulated download time passes the horizon, \<open>bufferSizeAfterTime\<close>
  scales the whole accumulated media time by \<open>timeToSearch / secDownloading\<close>, not only
  the last cue's share.  With a first cue of 1000 kilobits and a second of 7000 kilobits,
  one second each, and a horizon of 2 seconds: at 500 kbps the first cue takes exactly the
  horizon and the projection is \<open>1 - 2 = -1\<close>; at 1000 kbps the second cue is started,
  the total \<open>2\<close> seconds of media are scaled by \<open>2 / 8\<close>, and the projection is
  \<open>0.5 - 2 = -1.5\<close>.  The higher rate gives the lower projected buffer.  Every value
  in both runs is a binary fraction, so JavaScript's doubles compute them exactly.
\<close>

theorem bufferSizeAfterTime_lower_at_higher_rate:
  "bufferSizeAfterTime vbrParser 0 2 500 0 = Some (STATUS_OK (BufferResult 2 (- 1)))
   \<and> bufferSizeAfterTime vbrParser 0 2 1000 0 = Some (STATUS_OK (BufferResult 2 (- 3 / 2)))"
  by (simp add: vbrParser_def indexedParser_def newWebMParser_def cueAt_def
      bufferSizeAfterTime_def getCueIndexFromTime_def getCues_def firstCueStep_def
      getCueDescFromCue_def jsDiv_def timeSearchLoop.simps findCueEnd.simps projectLoop.simps)

end
